theory Spec2Isabelle
  imports Main "HOL-Library.AList"
begin

section \<open>Data model of \<open>pyro/contrib/funsor/named_messenger.py\<close>\<close>

text \<open>
  Python exceptions that the modelled code can raise: \<open>ValueError\<close> is the
  "Ran out of free dims" error of \<open>_gendim\<close>, \<open>TypeError\<close> is what Python raises
  for \<open>-None\<close> and for \<open>int <= None\<close>, \<open>AssertionError\<close> is a failed \<open>assert\<close>,
  \<open>IndexError\<close> is an index into an empty list. \<open>UnbalancedExit\<close> is the fatal failure
  of exiting a controller that is not on top of the nesting of entered controllers.
\<close>

datatype error = ValueError | TypeError | AssertionError | IndexError | UnbalancedExit

datatype DimType = LOCAL | GLOBAL | VISIBLE

text \<open>
  \<open>DimRequest\<close> and \<open>NameRequest\<close> are named tuples of an optional value and a
  \<open>DimType\<close>. An argument of \<open>DimStack.request\<close> is either such a request or a plain
  value (possibly \<open>None\<close>).
\<close>

datatype DimRequest = DimRequest (dr_dim: "int option") (dr_dim_type: DimType)

datatype NameRequest = NameRequest (nr_name: "string option") (nr_dim_type: DimType)

datatype name_arg = Name "string option" | NameReq NameRequest

datatype dim_arg = Dim "int option" | DimReq DimRequest

text \<open>
  An \<open>OrderedDict\<close> is an association list in insertion order with distinct keys:
  \<open>d[k] = v\<close> is \<open>AList.update k v\<close> (the value is replaced in place when the key is
  present, the pair is appended otherwise), \<open>d.pop(k, None)\<close> is \<open>AList.delete k\<close>,
  \<open>d.get(k, default)\<close> is \<open>map_of\<close>, \<open>d.items()\<close> is the list itself.

  The two dictionaries of a \<open>StackFrame\<close> are mutable objects shared between frames
  (a replayed frame reuses the dictionaries of the saved one, a parent frame is the
  very frame on the stack). Every place that builds a \<open>StackFrame\<close> (lines 56-59,
  274-285, 294-297) takes both dictionaries from the same origin, so the pair lives
  at one address of the store. A \<open>StackFrame\<close> itself is an immutable named tuple.
\<close>

record dicts =
  name_to_dim :: "(string \<times> int) list"
  dim_to_name :: "(int \<times> string) list"

datatype StackFrame =
  StackFrame (dicts_at: nat) (parents: "StackFrame list")
    (iter_parents: "StackFrame list") (keep: bool)

definition empty_dicts :: dicts where
  "empty_dicts = \<lparr>name_to_dim = [], dim_to_name = []\<rparr>"

subsection \<open>\<open>StackFrame.read\<close>, \<open>write\<close>, \<open>free\<close> on the dictionaries of a frame\<close>

definition StackFrame_read :: "dicts \<Rightarrow> string option \<Rightarrow> int option \<Rightarrow> string option \<times> int option \<times> bool" where
  "StackFrame_read fr name dim =
     (let found_name = (case dim of None \<Rightarrow> name
                        | Some d \<Rightarrow> (case map_of (dim_to_name fr) d of None \<Rightarrow> name | Some n \<Rightarrow> Some n));
          found_dim = (case name of None \<Rightarrow> dim
                       | Some n \<Rightarrow> (case map_of (name_to_dim fr) n of None \<Rightarrow> dim | Some d \<Rightarrow> Some d));
          found = ((case name of None \<Rightarrow> False | Some n \<Rightarrow> n \<in> fst ` set (name_to_dim fr)) \<or>
                   (case dim of None \<Rightarrow> False | Some d \<Rightarrow> d \<in> fst ` set (dim_to_name fr)))
      in (found_name, found_dim, found))"

definition StackFrame_write :: "dicts \<Rightarrow> string \<Rightarrow> int \<Rightarrow> dicts" where
  "StackFrame_write fr name dim =
     \<lparr>name_to_dim = AList.update name dim (name_to_dim fr),
      dim_to_name = AList.update dim name (dim_to_name fr)\<rparr>"

definition StackFrame_free :: "dicts \<Rightarrow> string \<Rightarrow> int \<Rightarrow> dicts" where
  "StackFrame_free fr name dim =
     \<lparr>name_to_dim = AList.delete name (name_to_dim fr),
      dim_to_name = AList.delete dim (dim_to_name fr)\<rparr>"

subsection \<open>\<open>DimStack\<close>\<close>

text \<open>
  The single \<open>_DIM_STACK\<close> together with the store of dictionary pairs:
  \<open>heap\<close> maps an address to the pair of dictionaries living there and \<open>next_addr\<close>
  is the next unused address (a fresh pair of \<open>OrderedDict()\<close> is allocated there).
  \<open>stack\<close> is \<open>_stack\<close> (index 0 is the global frame, the last element the current
  frame), \<open>outermost\<close> holds the identity of the owning messenger. \<open>nesting\<close> is the
  process-wide nesting of entered controllers that the base class of the messengers
  keeps (identities, the most recently entered last).
\<close>

record DimStack =
  heap :: "nat \<Rightarrow> dicts"
  next_addr :: nat
  stack :: "StackFrame list"
  first_available_dim :: "int option"
  outermost :: "nat option"
  nesting :: "nat list"

definition init_DimStack :: DimStack where
  "init_DimStack =
     \<lparr>heap = (\<lambda>_. empty_dicts), next_addr = 1,
      stack = [StackFrame 0 [] [] False],
      first_available_dim = Some (- 1), outermost = None, nesting = []\<rparr>"

definition MAX_DIM :: int where
  "MAX_DIM = - 25"

definition set_first_available_dim :: "DimStack \<Rightarrow> int option \<Rightarrow> error + (int option \<times> DimStack)" where
  "set_first_available_dim w dim =
     (if dim = None \<or> (MAX_DIM < the dim \<and> the dim < 0)
      then Inr (first_available_dim w, w\<lparr>first_available_dim := dim\<rparr>)
      else Inl AssertionError)"

definition push :: "DimStack \<Rightarrow> StackFrame \<Rightarrow> DimStack" where
  "push w frame = w\<lparr>stack := stack w @ [frame]\<rparr>"

definition pop :: "DimStack \<Rightarrow> error + (StackFrame \<times> DimStack)" where
  "pop w = (if length (stack w) > 1 then Inr (last (stack w), w\<lparr>stack := butlast (stack w)\<rparr>)
            else Inl AssertionError)"

definition current_frame :: "DimStack \<Rightarrow> StackFrame" where
  "current_frame w = last (stack w)"

definition global_frame :: "DimStack \<Rightarrow> StackFrame" where
  "global_frame w = hd (stack w)"

text \<open>Reading and writing a frame's dictionaries through the store.\<close>

definition frame_read :: "DimStack \<Rightarrow> StackFrame \<Rightarrow> string option \<Rightarrow> int option \<Rightarrow> string option \<times> int option \<times> bool" where
  "frame_read w f name dim = StackFrame_read (heap w (dicts_at f)) name dim"

definition frame_write :: "DimStack \<Rightarrow> StackFrame \<Rightarrow> string \<Rightarrow> int \<Rightarrow> DimStack" where
  "frame_write w f name dim = w\<lparr>heap := (heap w)(dicts_at f := StackFrame_write (heap w (dicts_at f)) name dim)\<rparr>"

definition frame_free :: "DimStack \<Rightarrow> StackFrame \<Rightarrow> string \<Rightarrow> int \<Rightarrow> DimStack" where
  "frame_free w f name dim = w\<lparr>heap := (heap w)(dicts_at f := StackFrame_free (heap w (dicts_at f)) name dim)\<rparr>"

subsection \<open>Python's \<open>str\<close> of an integer\<close>

definition digit_char :: "nat \<Rightarrow> char" where
  "digit_char n = ''0123456789'' ! (n mod 10)"

fun str_nat :: "nat \<Rightarrow> string" where
  "str_nat n = (if n < 10 then [digit_char n] else str_nat (n div 10) @ [digit_char (n mod 10)])"

definition str_int :: "int \<Rightarrow> string" where
  "str_int i = (if i < 0 then CHR ''-'' # str_nat (nat (- i)) else str_nat (nat i))"

subsection \<open>\<open>DimStack._gendim\<close>\<close>

text \<open>\<open>any(d in p.dim_to_name for p in conflict_frames)\<close>\<close>

definition collides :: "DimStack \<Rightarrow> StackFrame list \<Rightarrow> int \<Rightarrow> bool" where
  "collides w fs d = list_ex (\<lambda>p. d \<in> fst ` set (dim_to_name (heap w (dicts_at p)))) fs"

definition taken_dims :: "DimStack \<Rightarrow> StackFrame list \<Rightarrow> int list" where
  "taken_dims w fs = concat (map (\<lambda>p. map fst (dim_to_name (heap w (dicts_at p)))) fs)"

text \<open>The loop \<open>while any(...): fresh_dim -= 1\<close>.\<close>

function gendim_loop :: "DimStack \<Rightarrow> StackFrame list \<Rightarrow> int \<Rightarrow> int" where
  "gendim_loop w fs d = (if collides w fs d then gendim_loop w fs (d - 1) else d)"
  by pat_completeness auto
termination
proof (relation "measure (\<lambda>(w, fs, d). length (filter (\<lambda>x. x \<le> d) (taken_dims w fs)))")
  show "wf (measure (\<lambda>(w, fs, d). length (filter (\<lambda>x. x \<le> d) (taken_dims w fs))))"
    by simp
next
  fix w fs and d :: int
  assume "collides w fs d"
  then have mem: "d \<in> set (taken_dims w fs)"
    by (auto simp: collides_def taken_dims_def list_ex_iff)
  have le: "length (filter (\<lambda>x. x \<le> d - 1) xs) \<le> length (filter (\<lambda>x. x \<le> d) xs)"
    for xs :: "int list"
    by (induction xs) auto
  have less: "d \<in> set xs \<Longrightarrow>
      length (filter (\<lambda>x. x \<le> d - 1) xs) < length (filter (\<lambda>x. x \<le> d) xs)"
    for xs :: "int list"
  proof (induction xs)
    case Nil
    then show ?case by simp
  next
    case (Cons a xs)
    show ?case
    proof (cases "a = d")
      case True
      with le [of xs] show ?thesis by simp
    next
      case False
      with Cons have "length (filter (\<lambda>x. x \<le> d - 1) xs) < length (filter (\<lambda>x. x \<le> d) xs)"
        by simp
      then show ?thesis by auto
    qed
  qed
  from less [OF mem]
  show "((w, fs, d - 1), (w, fs, d))
      \<in> measure (\<lambda>(w, fs, d). length (filter (\<lambda>x. x \<le> d) (taken_dims w fs)))"
    by simp
qed

declare gendim_loop.simps [simp del]

definition conflict_frames :: "DimStack \<Rightarrow> StackFrame list" where
  "conflict_frames w =
     [current_frame w, global_frame w] @ parents (current_frame w) @ iter_parents (current_frame w)"

definition gendim :: "DimStack \<Rightarrow> NameRequest \<Rightarrow> DimRequest \<Rightarrow> error + (string \<times> int)" where
  "gendim w name_request dim_request =
     (let dim_type = dr_dim_type dim_request in
      case (case nr_name name_request of
              None \<Rightarrow> (case dr_dim dim_request of
                          None \<Rightarrow> Inl TypeError
                        | Some d \<Rightarrow> Inr (''_pyro_dim_'' @ str_int (- d)))
            | Some n \<Rightarrow> Inr n) of
        Inl e \<Rightarrow> Inl e
      | Inr fresh_name \<Rightarrow>
          (let fresh_dim =
                 (case dr_dim dim_request of
                    None \<Rightarrow>
                      gendim_loop w (conflict_frames w)
                        (case (if dim_type \<noteq> VISIBLE then first_available_dim w else Some (- 1)) of
                           None \<Rightarrow> - 1 | Some d \<Rightarrow> d)
                  | Some d \<Rightarrow> d)
           in if fresh_dim < MAX_DIM \<or> collides w (conflict_frames w) fresh_dim then Inl ValueError
              else if dim_type = VISIBLE
              then (case first_available_dim w of
                      None \<Rightarrow> Inl TypeError
                    | Some b \<Rightarrow> if fresh_dim \<le> b then Inl ValueError else Inr (fresh_name, fresh_dim))
              else Inr (fresh_name, fresh_dim)))"

subsection \<open>\<open>DimStack.request\<close>\<close>

text \<open>
  The assertion and the unpacking of the request: exactly one argument is a request;
  it gives the \<open>dim_type\<close>, and its value replaces the argument.
\<close>

fun unpack :: "name_arg \<Rightarrow> dim_arg \<Rightarrow> (string option \<times> int option \<times> DimType) option" where
  "unpack (Name n) (DimReq r) = Some (n, dr_dim r, dr_dim_type r)"
| "unpack (NameReq r) (Dim d) = Some (nr_name r, d, nr_dim_type r)"
| "unpack (Name n) (Dim d) = None"
| "unpack (NameReq r) (DimReq r') = None"

definition read_frames :: "DimStack \<Rightarrow> DimType \<Rightarrow> StackFrame list" where
  "read_frames w dim_type =
     (if dim_type \<noteq> LOCAL then [global_frame w]
      else [current_frame w] @ parents (current_frame w) @ iter_parents (current_frame w)
           @ [global_frame w])"

text \<open>
  The loop \<open>for frame in read_frames: name, dim, found = frame.read(name, dim); if found: break\<close>.
\<close>

fun read_loop :: "DimStack \<Rightarrow> StackFrame list \<Rightarrow> string option \<Rightarrow> int option \<Rightarrow> string option \<times> int option \<times> bool" where
  "read_loop w [] name dim = (name, dim, False)"
| "read_loop w (f # fs) name dim =
     (case frame_read w f name dim of
        (name', dim', found) \<Rightarrow> if found then (name', dim', True) else read_loop w fs name' dim')"

definition write_frames :: "DimStack \<Rightarrow> DimType \<Rightarrow> StackFrame list" where
  "write_frames w dim_type =
     (if dim_type \<noteq> LOCAL then [global_frame w]
      else [current_frame w] @ (if keep (current_frame w) then parents (current_frame w) else []))"

text \<open>The loop \<open>for frame in write_frames: frame.write(name, dim)\<close>.\<close>

fun write_loop :: "DimStack \<Rightarrow> StackFrame list \<Rightarrow> string \<Rightarrow> int \<Rightarrow> DimStack" where
  "write_loop w [] name dim = w"
| "write_loop w (f # fs) name dim = write_loop (frame_write w f name dim) fs name dim"

definition request :: "DimStack \<Rightarrow> name_arg \<Rightarrow> dim_arg \<Rightarrow> error + ((string option \<times> int option) \<times> DimStack)" where
  "request w name dim =
     (case unpack name dim of
        None \<Rightarrow> Inl AssertionError
      | Some (name, dim, dim_type) \<Rightarrow>
          if stack w = [] then Inl IndexError
          else
            (case read_loop w (read_frames w dim_type) name dim of
               (name, dim, found) \<Rightarrow>
                 if found then Inr ((name, dim), w)
                 else
                   (case gendim w (NameRequest name dim_type) (DimRequest dim dim_type) of
                      Inl e \<Rightarrow> Inl e
                    | Inr (name, dim) \<Rightarrow>
                        Inr ((Some name, Some dim),
                             write_loop w (write_frames w dim_type) name dim))))"

section \<open>Messengers\<close>

subsection \<open>\<open>DimStackCleanupMessenger\<close>\<close>

text \<open>
  A messenger object: \<open>ident\<close> is its identity (for \<open>_DIM_STACK.outermost is self\<close>),
  \<open>ref_count\<close> is \<open>_ref_count\<close> of the base class \<open>ReentrantMessenger\<close>,
  \<open>saved_dims\<close> is \<open>_saved_dims\<close>.
\<close>

record DimStackCleanupMessenger =
  ident :: nat
  ref_count :: int
  saved_dims :: "(string \<times> int) list"

text \<open>
  Modelled from the spec: \<open>ReentrantMessenger.__enter__\<close> and \<open>__exit__\<close>
  (\<open>pyro/poutine/reentrant_messenger.py\<close>, not among the sources). The spec: a
  re-entrancy counter tracks the nesting depth, enter and exit transition it, and only
  the transitions 0\<rightarrow>1 and 1\<rightarrow>0 do the base class's own work; entry and exit follow
  a last-entered, first-exited discipline, and exiting a controller that is not on top
  of the nesting is fatal. So the transition 0\<rightarrow>1 puts the controller on top of the
  nesting, and the transition 1\<rightarrow>0 takes it off, failing when it is not on top.
\<close>

definition ReentrantMessenger_enter :: "'a DimStackCleanupMessenger_scheme \<Rightarrow> DimStack \<Rightarrow> 'a DimStackCleanupMessenger_scheme \<times> DimStack" where
  "ReentrantMessenger_enter m w =
     (m\<lparr>ref_count := ref_count m + 1\<rparr>,
      if ref_count m + 1 = 1 then w\<lparr>nesting := nesting w @ [ident m]\<rparr> else w)"

definition ReentrantMessenger_exit :: "'a DimStackCleanupMessenger_scheme \<Rightarrow> DimStack \<Rightarrow> error + ('a DimStackCleanupMessenger_scheme \<times> DimStack)" where
  "ReentrantMessenger_exit m w =
     (if ref_count m - 1 = 0
      then (if nesting w \<noteq> [] \<and> last (nesting w) = ident m
            then Inr (m\<lparr>ref_count := ref_count m - 1\<rparr>, w\<lparr>nesting := butlast (nesting w)\<rparr>)
            else Inl UnbalancedExit)
      else Inr (m\<lparr>ref_count := ref_count m - 1\<rparr>, w))"

text \<open>The loop \<open>for name, dim in self._saved_dims: _DIM_STACK.global_frame.write(name, dim)\<close>.\<close>

fun restore_loop :: "DimStack \<Rightarrow> (string \<times> int) list \<Rightarrow> DimStack" where
  "restore_loop w [] = w"
| "restore_loop w ((name, dim) # rest) = restore_loop (frame_write w (global_frame w) name dim) rest"

definition cleanup_enter :: "'a DimStackCleanupMessenger_scheme \<Rightarrow> DimStack \<Rightarrow> 'a DimStackCleanupMessenger_scheme \<times> DimStack" where
  "cleanup_enter m w =
     (if ref_count m = 0 \<and> outermost w = None
      then ReentrantMessenger_enter (m\<lparr>saved_dims := []\<rparr>)
             (restore_loop (w\<lparr>outermost := Some (ident m)\<rparr>) (saved_dims m))
      else ReentrantMessenger_enter m w)"

text \<open>
  The loop \<open>for name, dim in reversed(tuple(global_frame.name_to_dim.items())):
  self._saved_dims += (global_frame.free(name, dim),)\<close>, over the items given.
\<close>

fun drain_loop :: "'a DimStackCleanupMessenger_scheme \<Rightarrow> DimStack \<Rightarrow> (string \<times> int) list \<Rightarrow> 'a DimStackCleanupMessenger_scheme \<times> DimStack" where
  "drain_loop m w [] = (m, w)"
| "drain_loop m w ((name, dim) # rest) =
     drain_loop (m\<lparr>saved_dims := saved_dims m @ [(name, dim)]\<rparr>)
       (frame_free w (global_frame w) name dim) rest"

text \<open>
  \<open>DimStackCleanupMessenger.__exit__\<close>: \<open>cleanup_exit_drain\<close> is the body before
  \<open>return super().__exit__(...)\<close>, \<open>cleanup_exit\<close> the whole method.
\<close>

definition cleanup_exit_drain :: "'a DimStackCleanupMessenger_scheme \<Rightarrow> DimStack \<Rightarrow> 'a DimStackCleanupMessenger_scheme \<times> DimStack" where
  "cleanup_exit_drain m w =
     (if ref_count m = 1 \<and> outermost w = Some (ident m)
      then drain_loop m (w\<lparr>outermost := None\<rparr>)
             (rev (name_to_dim (heap w (dicts_at (global_frame w)))))
      else (m, w))"

definition cleanup_exit :: "'a DimStackCleanupMessenger_scheme \<Rightarrow> DimStack \<Rightarrow> error + ('a DimStackCleanupMessenger_scheme \<times> DimStack)" where
  "cleanup_exit m w =
     (case cleanup_exit_drain m w of (m', w') \<Rightarrow> ReentrantMessenger_exit m' w')"

subsection \<open>\<open>LocalNamedMessenger\<close>\<close>

record LocalNamedMessenger = DimStackCleanupMessenger +
  history :: int
  m_keep :: bool
  saved_frames :: "StackFrame list"
  m_iter_parents :: "StackFrame list"

text \<open>Python's slice \<open>xs[i:]\<close>: a negative start counts from the end, and is clipped.\<close>

definition py_slice_from :: "'a list \<Rightarrow> int \<Rightarrow> 'a list" where
  "py_slice_from xs i =
     (let n = int (length xs);
          j = (if i < 0 then max 0 (i + n) else min i n)
      in drop (nat j) xs)"

text \<open>The loop of \<open>_get_iter_parents\<close>; \<open>sum([p.iter_parents for p in frontier], ())\<close> is \<open>concat\<close>.\<close>

function iter_parents_loop :: "StackFrame list \<Rightarrow> StackFrame list \<Rightarrow> StackFrame list" where
  "iter_parents_loop acc frontier =
     (if frontier \<noteq> []
      then iter_parents_loop (acc @ concat (map iter_parents frontier))
             (concat (map iter_parents frontier))
      else acc)"
  by pat_completeness auto
termination
proof (relation "measure (\<lambda>(acc, frontier). sum_list (map size frontier))")
  show "wf (measure (\<lambda>(acc, frontier). sum_list (map size frontier)))"
    by simp
next
  fix acc frontier :: "StackFrame list"
  assume ne: "frontier \<noteq> []"
  have one: "sum_list (map size (iter_parents p)) < size p" for p :: StackFrame
  proof (cases p)
    case (StackFrame a ps ips k)
    have "sum_list (map size xs) \<le> size_list size xs" for xs :: "StackFrame list"
      by (induction xs) auto
    from this [of ips] show ?thesis
      using StackFrame by simp
  qed
  have all: "fs \<noteq> [] \<Longrightarrow>
      sum_list (map size (concat (map iter_parents fs))) < sum_list (map size fs)"
    for fs :: "StackFrame list"
  proof (induction fs)
    case Nil
    then show ?case by simp
  next
    case (Cons p fs)
    show ?case
    proof (cases "fs = []")
      case True
      with one [of p] show ?thesis by simp
    next
      case False
      with Cons one [of p] show ?thesis by simp
    qed
  qed
  from all [OF ne]
  show "((acc @ concat (map iter_parents frontier), concat (map iter_parents frontier)),
         (acc, frontier)) \<in> measure (\<lambda>(acc, frontier). sum_list (map size frontier))"
    by simp
qed

declare iter_parents_loop.simps [simp del]

definition get_iter_parents :: "StackFrame \<Rightarrow> StackFrame list" where
  "get_iter_parents frame = iter_parents_loop [frame] [frame]"

text \<open>
  \<open>LocalNamedMessenger.__enter__\<close>: the dictionaries are those of the popped saved
  frame, or a fresh pair allocated at \<open>next_addr\<close>.
\<close>

definition local_enter :: "LocalNamedMessenger \<Rightarrow> DimStack \<Rightarrow> LocalNamedMessenger \<times> DimStack" where
  "local_enter m w =
     (case (if m_keep m \<and> saved_frames m \<noteq> []
            then (m\<lparr>saved_frames := butlast (saved_frames m)\<rparr>,
                  dicts_at (last (saved_frames m)), w)
            else (m, next_addr w,
                  w\<lparr>heap := (heap w)(next_addr w := empty_dicts), next_addr := next_addr w + 1\<rparr>)) of
        (m1, a, w1) \<Rightarrow>
          cleanup_enter m1
            (push w1
               (StackFrame a
                  (rev (py_slice_from (stack w) (int (length (stack w)) - history m)))
                  (m_iter_parents m) (m_keep m))))"

definition local_exit :: "LocalNamedMessenger \<Rightarrow> DimStack \<Rightarrow> error + (LocalNamedMessenger \<times> DimStack)" where
  "local_exit m w =
     (case pop w of
        Inl e \<Rightarrow> Inl e
      | Inr (old_frame, w1) \<Rightarrow>
          cleanup_exit
            (if m_keep m
             then m\<lparr>saved_frames := saved_frames m @ [StackFrame (dicts_at old_frame) [] [] (m_keep m)]\<rparr>
             else m)
            w1)"

text \<open>
  \<open>LocalNamedMessenger.__iter__\<close>: the iteration parents are computed once, then
  every value of the iterable enters the messenger again and is yielded. \<open>body v\<close> is
  what the consumer does to \<open>_DIM_STACK\<close> while the generator is suspended at the
  yield of \<open>v\<close>. \<open>iter_frames\<close> lists the frames that the steps push, in order.
\<close>

definition iter_begin :: "LocalNamedMessenger \<Rightarrow> DimStack \<Rightarrow> LocalNamedMessenger" where
  "iter_begin m w = m\<lparr>m_iter_parents := get_iter_parents (current_frame w)\<rparr>"

fun iter_frames :: "('v \<Rightarrow> DimStack \<Rightarrow> DimStack) \<Rightarrow> LocalNamedMessenger \<Rightarrow> DimStack \<Rightarrow> 'v list \<Rightarrow> StackFrame list" where
  "iter_frames body m w [] = []"
| "iter_frames body m w (v # vs) =
     (case local_enter m w of
        (m', w') \<Rightarrow> current_frame w' # iter_frames body m' (body v w') vs)"

section \<open>Invariants\<close>

text \<open>
  The frame invariant: both dictionaries have distinct keys (as every \<open>OrderedDict\<close>
  has) and hold the same pairs, one reversed. \<open>slots_unique\<close> says that across the given
  frames no two distinct names are bound to the same slot.
\<close>

definition mutual_inverses :: "dicts \<Rightarrow> bool" where
  "mutual_inverses fr \<longleftrightarrow>
     distinct (map fst (name_to_dim fr)) \<and> distinct (map fst (dim_to_name fr)) \<and>
     set (dim_to_name fr) = (\<lambda>(n, d). (d, n)) ` set (name_to_dim fr)"

definition slots_unique :: "DimStack \<Rightarrow> StackFrame list \<Rightarrow> bool" where
  "slots_unique w fs \<longleftrightarrow>
     (\<forall>f \<in> set fs. \<forall>g \<in> set fs.
        \<forall>p \<in> set (name_to_dim (heap w (dicts_at f))).
        \<forall>q \<in> set (name_to_dim (heap w (dicts_at g))).
          snd p = snd q \<longrightarrow> fst p = fst q)"

section \<open>Auxiliary facts\<close>

lemmas eval_defs = request_def read_frames_def write_frames_def current_frame_def global_frame_def
  frame_read_def frame_write_def StackFrame_read_def StackFrame_write_def empty_dicts_def gendim_def
  conflict_frames_def collides_def MAX_DIM_def init_DimStack_def str_int_def digit_char_def

lemma read_miss_same:
  "StackFrame_read fr name dim = (n', d', False) \<Longrightarrow> n' = name \<and> d' = dim"
proof -
  assume r: "StackFrame_read fr name dim = (n', d', False)"
  have a: "case name of None \<Rightarrow> True | Some n \<Rightarrow> map_of (name_to_dim fr) n = None"
    using r by (auto simp: StackFrame_read_def Let_def map_of_eq_None_iff split: option.splits)
  have b: "case dim of None \<Rightarrow> True | Some d \<Rightarrow> map_of (dim_to_name fr) d = None"
    using r by (auto simp: StackFrame_read_def Let_def map_of_eq_None_iff split: option.splits)
  from r a b show ?thesis
    by (auto simp: StackFrame_read_def Let_def split: option.splits)
qed

lemma read_loop_miss:
  "read_loop w fs name dim = (n', d', False) \<Longrightarrow> n' = name \<and> d' = dim"
proof (induction fs)
  case Nil
  then show ?case by simp
next
  case (Cons f fs)
  obtain a b c where r: "frame_read w f name dim = (a, b, c)"
    by (cases "frame_read w f name dim")
  with Cons.prems have c: "\<not> c" by (auto split: if_splits)
  with r have "a = name \<and> b = dim"
    by (auto simp: frame_read_def dest: read_miss_same)
  with Cons r c show ?case by simp
qed

lemma read_loop_miss_frame:
  "read_loop w fs name dim = (n', d', False) \<Longrightarrow> f \<in> set fs \<Longrightarrow>
     frame_read w f name dim = (name, dim, False)"
proof (induction fs)
  case Nil
  then show ?case by simp
next
  case (Cons g fs)
  obtain a b c where r: "frame_read w g name dim = (a, b, c)"
    by (cases "frame_read w g name dim")
  with Cons.prems have c: "\<not> c" by (auto split: if_splits)
  with r have ab: "a = name \<and> b = dim"
    by (auto simp: frame_read_def dest: read_miss_same)
  with Cons r c show ?case by auto
qed

lemma gendim_loop_free: "\<not> collides w fs (gendim_loop w fs d)"
  by (induction w fs d rule: gendim_loop.induct) (simp add: gendim_loop.simps)

lemma gendim_loop_le: "gendim_loop w fs d \<le> d"
proof (induction w fs d rule: gendim_loop.induct)
  case (1 w fs d)
  show ?case
  proof (cases "collides w fs d")
    case True
    with 1 have "gendim_loop w fs (d - 1) \<le> d - 1" by simp
    with True show ?thesis by (simp add: gendim_loop.simps)
  next
    case False
    then show ?thesis by (simp add: gendim_loop.simps)
  qed
qed

lemma gendim_loop_between:
  "gendim_loop w fs d < d' \<Longrightarrow> d' \<le> d \<Longrightarrow> collides w fs d'"
proof (induction w fs d rule: gendim_loop.induct)
  case (1 w fs d)
  show ?case
  proof (cases "collides w fs d")
    case True
    show ?thesis
    proof (cases "d' = d")
      case True
      with \<open>collides w fs d\<close> show ?thesis by simp
    next
      case False
      with 1 True show ?thesis by (simp add: gendim_loop.simps)
    qed
  next
    case False
    with 1 show ?thesis by (simp add: gendim_loop.simps)
  qed
qed

lemma gendim_loop_stay: "\<not> collides w fs d \<Longrightarrow> gendim_loop w fs d = d"
  by (simp add: gendim_loop.simps)


lemma collides_conflict_iff:
  "collides w (conflict_frames w) d \<longleftrightarrow>
     (\<exists>f \<in> set ([current_frame w, global_frame w] @ parents (current_frame w)
                  @ iter_parents (current_frame w)).
        d \<in> fst ` set (dim_to_name (heap w (dicts_at f))))"
  by (simp add: collides_def conflict_frames_def list_ex_iff)

lemma request_miss:
  assumes "unpack name dim = Some (n, d, dim_type)" and "stack w \<noteq> []"
    and "snd (snd (read_loop w (read_frames w dim_type) n d)) = False"
  shows "request w name dim =
     (case gendim w (NameRequest n dim_type) (DimRequest d dim_type) of
        Inl e \<Rightarrow> Inl e
      | Inr (name', dim') \<Rightarrow>
          Inr ((Some name', Some dim'), write_loop w (write_frames w dim_type) name' dim'))"
proof -
  obtain a b c where r: "read_loop w (read_frames w dim_type) n d = (a, b, c)"
    by (cases "read_loop w (read_frames w dim_type) n d")
  with assms(3) have c: "c = False" by simp
  with r have "a = n \<and> b = d"
    by (auto dest: read_loop_miss)
  with r c assms(1,2) show ?thesis
    by (simp add: request_def)
qed

lemma gendim_named_no_slot:
  assumes "dim_type \<noteq> VISIBLE"
  shows "gendim w (NameRequest (Some n) dim_type) (DimRequest None dim_type) =
     (let d0 = gendim_loop w (conflict_frames w)
                 (case first_available_dim w of None \<Rightarrow> - 1 | Some b \<Rightarrow> b)
      in if d0 < - 25 then Inl ValueError else Inr (n, d0))"
  using assms by (simp add: gendim_def Let_def gendim_loop_free MAX_DIM_def)

lemma frame_free_fields [simp]:
  "stack (frame_free w f n d) = stack w"
  "outermost (frame_free w f n d) = outermost w"
  "first_available_dim (frame_free w f n d) = first_available_dim w"
  "next_addr (frame_free w f n d) = next_addr w"
  "nesting (frame_free w f n d) = nesting w"
  "global_frame (frame_free w f n d) = global_frame w"
  by (simp_all add: frame_free_def global_frame_def)

lemma frame_write_fields [simp]:
  "stack (frame_write w f n d) = stack w"
  "outermost (frame_write w f n d) = outermost w"
  "first_available_dim (frame_write w f n d) = first_available_dim w"
  "next_addr (frame_write w f n d) = next_addr w"
  "nesting (frame_write w f n d) = nesting w"
  "global_frame (frame_write w f n d) = global_frame w"
  "current_frame (frame_write w f n d) = current_frame w"
  by (simp_all add: frame_write_def global_frame_def current_frame_def)

lemma dicts_eta [simp]:
  "\<lparr>name_to_dim = name_to_dim r, dim_to_name = dim_to_name r\<rparr> = r"
  by (cases r) simp

lemma heap_frame_write:
  "heap (frame_write w f n d) = (heap w)(dicts_at f := StackFrame_write (heap w (dicts_at f)) n d)"
  by (simp add: frame_write_def)

lemma heap_frame_free:
  "heap (frame_free w f n d) = (heap w)(dicts_at f := StackFrame_free (heap w (dicts_at f)) n d)"
  by (simp add: frame_free_def)

lemma drain_loop_messenger:
  "drain_loop m w items = (m', w') \<Longrightarrow>
     saved_dims m' = saved_dims m @ items \<and> ref_count m' = ref_count m \<and> ident m' = ident m"
  by (induction m w items rule: drain_loop.induct) auto

lemma drain_loop_fields:
  "drain_loop m w items = (m', w') \<Longrightarrow>
     stack w' = stack w \<and> outermost w' = outermost w \<and>
     first_available_dim w' = first_available_dim w \<and> next_addr w' = next_addr w \<and>
     nesting w' = nesting w"
  by (induction m w items rule: drain_loop.induct) auto

lemma drain_loop_heap:
  "drain_loop m w items = (m', w') \<Longrightarrow>
     heap w' a =
       (if a = dicts_at (global_frame w)
        then \<lparr>name_to_dim = filter (\<lambda>p. fst p \<notin> fst ` set items) (name_to_dim (heap w a)),
              dim_to_name = filter (\<lambda>p. fst p \<notin> snd ` set items) (dim_to_name (heap w a))\<rparr>
        else heap w a)"
proof (induction m w items arbitrary: m' w' rule: drain_loop.induct)
  case (1 m w)
  then show ?case by simp
next
  case (2 m w name dim rest)
  let ?w1 = "frame_free w (global_frame w) name dim"
  from 2 have step: "heap w' a =
       (if a = dicts_at (global_frame w)
        then \<lparr>name_to_dim = filter (\<lambda>p. fst p \<notin> fst ` set rest) (name_to_dim (heap ?w1 a)),
              dim_to_name = filter (\<lambda>p. fst p \<notin> snd ` set rest) (dim_to_name (heap ?w1 a))\<rparr>
        else heap ?w1 a)"
    by simp
  have n: "filter (\<lambda>p. fst p \<notin> fst ` set rest) (AList.delete name xs)
         = filter (\<lambda>p. fst p \<notin> fst ` set ((name, dim) # rest)) xs" for xs :: "(string \<times> int) list"
    by (induction xs) (auto simp: AList.delete_eq)
  have d: "filter (\<lambda>p. fst p \<notin> snd ` set rest) (AList.delete dim xs)
         = filter (\<lambda>p. fst p \<notin> snd ` set ((name, dim) # rest)) xs" for xs :: "(int \<times> string) list"
    by (induction xs) (auto simp: AList.delete_eq)
  show ?case
    by (simp add: step heap_frame_free StackFrame_free_def n d del: set_simps)
qed

lemma restore_loop_fields:
  "stack (restore_loop w items) = stack w \<and> outermost (restore_loop w items) = outermost w \<and>
   first_available_dim (restore_loop w items) = first_available_dim w \<and>
   next_addr (restore_loop w items) = next_addr w \<and>
   nesting (restore_loop w items) = nesting w"
  by (induction w items rule: restore_loop.induct) auto

lemma restore_loop_heap:
  "heap (restore_loop w items) a =
     (if a = dicts_at (global_frame w)
      then foldl (\<lambda>fr (n, d). StackFrame_write fr n d) (heap w a) items
      else heap w a)"
proof (induction w items rule: restore_loop.induct)
  case (1 w)
  then show ?case by simp
next
  case (2 w name dim rest)
  then show ?case by (simp add: heap_frame_write)
qed

lemma write_loop_fields [simp]:
  "stack (write_loop w fs n d) = stack w"
  "outermost (write_loop w fs n d) = outermost w"
  "first_available_dim (write_loop w fs n d) = first_available_dim w"
  "next_addr (write_loop w fs n d) = next_addr w"
  "nesting (write_loop w fs n d) = nesting w"
  by (induction w fs n d rule: write_loop.induct) simp_all

lemma StackFrame_write_twice:
  "StackFrame_write (StackFrame_write fr n d) n d = StackFrame_write fr n d"
  by (simp add: StackFrame_write_def update_last)

lemma write_loop_heap:
  "heap (write_loop w fs n d) a =
     (if a \<in> dicts_at ` set fs then StackFrame_write (heap w a) n d else heap w a)"
proof (induction w fs n d rule: write_loop.induct)
  case (1 w name dim)
  then show ?case by simp
next
  case (2 w f fs name dim)
  then show ?case
    by (auto simp: heap_frame_write StackFrame_write_twice)
qed

lemma gendim_ok:
  "gendim w nr dr = Inr (n', d') \<Longrightarrow> \<not> collides w (conflict_frames w) d' \<and> MAX_DIM \<le> d'"
proof -
  assume g: "gendim w nr dr = Inr (n', d')"
  define fd where "fd = (case dr_dim dr of
                    None \<Rightarrow>
                      gendim_loop w (conflict_frames w)
                        (case (if dr_dim_type dr \<noteq> VISIBLE then first_available_dim w else Some (- 1)) of
                           None \<Rightarrow> - 1 | Some d \<Rightarrow> d)
                  | Some d \<Rightarrow> d)"
  have ok: "\<not> (fd < MAX_DIM \<or> collides w (conflict_frames w) fd)"
    using g unfolding gendim_def Let_def fd_def [symmetric]
    by (auto split: sum.splits if_splits)
  have "d' = fd"
    using g ok unfolding gendim_def Let_def fd_def [symmetric]
    by (auto split: sum.splits if_splits option.splits)
  with ok show ?thesis by simp
qed

lemma write_changes:
  "d \<notin> fst ` set (dim_to_name fr) \<Longrightarrow> StackFrame_write fr n d \<noteq> fr"
proof
  assume a: "d \<notin> fst ` set (dim_to_name fr)" and e: "StackFrame_write fr n d = fr"
  have "dim_to_name (StackFrame_write fr n d) = AList.update d n (dim_to_name fr)"
    by (simp add: StackFrame_write_def)
  with e have upd: "dim_to_name fr = AList.update d n (dim_to_name fr)"
    by (simp only:)
  have "fst ` set (AList.update d n (dim_to_name fr)) = {d} \<union> fst ` set (dim_to_name fr)"
    by (rule dom_update)
  with upd have "fst ` set (dim_to_name fr) = {d} \<union> fst ` set (dim_to_name fr)"
    by (simp only:)
  then have "d \<in> fst ` set (dim_to_name fr)" by blast
  with a show False by blast
qed

lemma drain_loop_fst:
  "fst (drain_loop m w items) = m\<lparr>saved_dims := saved_dims m @ items\<rparr>"
  by (induction m w items rule: drain_loop.induct) simp_all

lemma ReentrantMessenger_enter_fields [simp]:
  "fst (ReentrantMessenger_enter m w) = m\<lparr>ref_count := ref_count m + 1\<rparr>"
  "stack (snd (ReentrantMessenger_enter m w)) = stack w"
  "heap (snd (ReentrantMessenger_enter m w)) = heap w"
  "outermost (snd (ReentrantMessenger_enter m w)) = outermost w"
  "first_available_dim (snd (ReentrantMessenger_enter m w)) = first_available_dim w"
  "next_addr (snd (ReentrantMessenger_enter m w)) = next_addr w"
  "nesting (snd (ReentrantMessenger_enter m w)) =
     (if ref_count m = 0 then nesting w @ [ident m] else nesting w)"
  by (simp_all add: ReentrantMessenger_enter_def)

lemma ReentrantMessenger_exit_Inr:
  "ReentrantMessenger_exit m w = Inr (m', w') \<Longrightarrow>
     m' = m\<lparr>ref_count := ref_count m - 1\<rparr> \<and> stack w' = stack w \<and> heap w' = heap w \<and>
     outermost w' = outermost w \<and> first_available_dim w' = first_available_dim w \<and>
     next_addr w' = next_addr w"
  by (auto simp: ReentrantMessenger_exit_def split: if_splits)

lemma cleanup_enter_stack [simp]: "stack (snd (cleanup_enter m w)) = stack w"
  using restore_loop_fields [of "w\<lparr>outermost := Some (ident m)\<rparr>" "saved_dims m"]
  by (simp add: cleanup_enter_def)

lemma cleanup_enter_ref_count [simp]:
  "ref_count (fst (cleanup_enter m w)) = ref_count m + 1"
  by (simp add: cleanup_enter_def)

lemma cleanup_enter_nesting:
  "nesting (snd (cleanup_enter m w)) =
     (if ref_count m = 0 then nesting w @ [ident m] else nesting w)"
  using restore_loop_fields [of "w\<lparr>outermost := Some (ident m)\<rparr>" "saved_dims m"]
  by (simp add: cleanup_enter_def)

lemma cleanup_exit_drain_fst:
  "fst (cleanup_exit_drain m w) = m \<or>
   fst (cleanup_exit_drain m w) =
     m\<lparr>saved_dims := saved_dims m @ rev (name_to_dim (heap w (dicts_at (global_frame w))))\<rparr>"
  by (simp add: cleanup_exit_drain_def drain_loop_fst)

lemma cleanup_exit_drain_fields [simp]:
  "stack (snd (cleanup_exit_drain m w)) = stack w"
  "nesting (snd (cleanup_exit_drain m w)) = nesting w"
  "first_available_dim (snd (cleanup_exit_drain m w)) = first_available_dim w"
  "next_addr (snd (cleanup_exit_drain m w)) = next_addr w"
proof -
  obtain m1 w1 where d: "drain_loop m (w\<lparr>outermost := None\<rparr>)
      (rev (name_to_dim (heap w (dicts_at (global_frame w))))) = (m1, w1)"
    by (cases "drain_loop m (w\<lparr>outermost := None\<rparr>)
      (rev (name_to_dim (heap w (dicts_at (global_frame w)))))")
  from drain_loop_fields [OF d] d
  show "stack (snd (cleanup_exit_drain m w)) = stack w"
    "nesting (snd (cleanup_exit_drain m w)) = nesting w"
    "first_available_dim (snd (cleanup_exit_drain m w)) = first_available_dim w"
    "next_addr (snd (cleanup_exit_drain m w)) = next_addr w"
    by (simp_all add: cleanup_exit_drain_def)
qed

lemma cleanup_exit_drain_messenger [simp]:
  "ref_count (fst (cleanup_exit_drain m w)) = ref_count m"
  "ident (fst (cleanup_exit_drain m w)) = ident m"
  using cleanup_exit_drain_fst [of m w] by auto

lemma cleanup_exit_Inr:
  assumes "cleanup_exit m w = Inr (m', w')"
  shows "m' = (fst (cleanup_exit_drain m w))\<lparr>ref_count := ref_count m - 1\<rparr>"
    and "stack w' = stack w"
    and "heap w' = heap (snd (cleanup_exit_drain m w))"
    and "outermost w' = outermost (snd (cleanup_exit_drain m w))"
proof -
  obtain m1 w1 where d: "cleanup_exit_drain m w = (m1, w1)"
    by (cases "cleanup_exit_drain m w")
  with assms have e: "ReentrantMessenger_exit m1 w1 = Inr (m', w')"
    by (simp add: cleanup_exit_def)
  have r: "ref_count m1 = ref_count m" "stack w1 = stack w"
    using cleanup_exit_drain_messenger(1) [of m w] cleanup_exit_drain_fields(1) [of m w] d
    by simp_all
  from ReentrantMessenger_exit_Inr [OF e] d r
  show "m' = (fst (cleanup_exit_drain m w))\<lparr>ref_count := ref_count m - 1\<rparr>"
    and "stack w' = stack w"
    and "heap w' = heap (snd (cleanup_exit_drain m w))"
    and "outermost w' = outermost (snd (cleanup_exit_drain m w))"
    by simp_all
qed

lemma cleanup_exit_returns:
  assumes "ref_count m \<noteq> 1 \<or> (nesting w \<noteq> [] \<and> last (nesting w) = ident m)"
  shows "\<exists>m' w'. cleanup_exit m w = Inr (m', w')"
proof -
  obtain m1 w1 where d: "cleanup_exit_drain m w = (m1, w1)"
    by (cases "cleanup_exit_drain m w")
  have r: "ref_count m1 = ref_count m" "ident m1 = ident m" "nesting w1 = nesting w"
    using cleanup_exit_drain_messenger [of m w] cleanup_exit_drain_fields(2) [of m w] d
    by simp_all
  from assms r show ?thesis
    by (auto simp: cleanup_exit_def d ReentrantMessenger_exit_def)
qed

lemma cleanup_exit_fails:
  assumes "ref_count m = 1" and "\<not> (nesting w \<noteq> [] \<and> last (nesting w) = ident m)"
  shows "cleanup_exit m w = Inl UnbalancedExit"
proof -
  obtain m1 w1 where d: "cleanup_exit_drain m w = (m1, w1)"
    by (cases "cleanup_exit_drain m w")
  have r: "ref_count m1 = ref_count m" "ident m1 = ident m" "nesting w1 = nesting w"
    using cleanup_exit_drain_messenger [of m w] cleanup_exit_drain_fields(2) [of m w] d
    by simp_all
  from assms r show ?thesis
    by (auto simp: cleanup_exit_def d ReentrantMessenger_exit_def)
qed

lemma local_enter_stack:
  "stack (snd (local_enter m w)) =
     stack w @ [StackFrame
        (if m_keep m \<and> saved_frames m \<noteq> [] then dicts_at (last (saved_frames m)) else next_addr w)
        (rev (py_slice_from (stack w) (int (length (stack w)) - history m)))
        (m_iter_parents m) (m_keep m)]"
  by (simp add: local_enter_def push_def)

lemma local_enter_ref_count: "ref_count (fst (local_enter m w)) = ref_count m + 1"
  by (simp add: local_enter_def)

lemma iter_parents_loop_set:
  "set (iter_parents_loop acc frontier) =
     set acc \<union> {(f, g). g \<in> set (iter_parents f)}\<^sup>+ `` set frontier"
proof (induction acc frontier rule: iter_parents_loop.induct)
  case (1 acc frontier)
  let ?R = "{(f, g). g \<in> set (iter_parents f)}"
  show ?case
  proof (cases "frontier = []")
    case True
    then show ?thesis by (simp add: iter_parents_loop.simps)
  next
    case False
    let ?F = "concat (map iter_parents frontier)"
    have F: "set ?F = ?R `` set frontier" by auto
    have step: "?R `` S \<union> ?R\<^sup>+ `` (?R `` S) = ?R\<^sup>+ `` S" for S
    proof (intro set_eqI iffI)
      fix g
      assume "g \<in> ?R `` S \<union> ?R\<^sup>+ `` (?R `` S)"
      then show "g \<in> ?R\<^sup>+ `` S"
        by (blast intro: r_into_trancl trancl_into_trancl2)
    next
      fix g
      assume "g \<in> ?R\<^sup>+ `` S"
      then obtain f where f: "f \<in> S" "(f, g) \<in> ?R\<^sup>+" by blast
      from f(2) show "g \<in> ?R `` S \<union> ?R\<^sup>+ `` (?R `` S)"
        using f(1) by (cases rule: converse_tranclE) blast+
    qed
    from False have "iter_parents_loop acc frontier = iter_parents_loop (acc @ ?F) ?F"
      by (subst iter_parents_loop.simps) simp
    also have "set \<dots> = set (acc @ ?F) \<union> ?R\<^sup>+ `` set ?F"
      using 1 False by simp
    also have "\<dots> = set acc \<union> (?R `` set frontier \<union> ?R\<^sup>+ `` (?R `` set frontier))"
      by (simp only: F set_append Un_assoc)
    also have "\<dots> = set acc \<union> ?R\<^sup>+ `` set frontier"
      by (simp only: step)
    finally show ?thesis .
  qed
qed

lemma cleanup_enter_local_fields [simp]:
  "m_iter_parents (fst (cleanup_enter m w)) = m_iter_parents m"
  "m_keep (fst (cleanup_enter m w)) = m_keep m"
  "history (fst (cleanup_enter m w)) = history m"
  "saved_frames (fst (cleanup_enter m w)) = saved_frames m"
  by (simp_all add: cleanup_enter_def)

lemma local_enter_iter_parents:
  "m_iter_parents (fst (local_enter m w)) = m_iter_parents m"
  by (simp add: local_enter_def)

lemma local_enter_current:
  "iter_parents (current_frame (snd (local_enter m w))) = m_iter_parents m"
  by (simp add: current_frame_def local_enter_stack)

lemma iter_frames_iter_parents:
  "f \<in> set (iter_frames body m w vs) \<Longrightarrow> iter_parents f = m_iter_parents m"
proof (induction vs arbitrary: m w)
  case Nil
  then show ?case by simp
next
  case (Cons v vs)
  obtain m' w' where e: "local_enter m w = (m', w')"
    by (cases "local_enter m w")
  from e have m': "m_iter_parents m' = m_iter_parents m"
    using local_enter_iter_parents [of m w] by simp
  from e have c: "iter_parents (current_frame w') = m_iter_parents m"
    using local_enter_current [of m w] by simp
  from Cons.prems e have "f = current_frame w' \<or> f \<in> set (iter_frames body m' (body v w') vs)"
    by simp
  then show ?case
  proof
    assume "f = current_frame w'"
    with c show ?thesis by simp
  next
    assume "f \<in> set (iter_frames body m' (body v w') vs)"
    from Cons.IH [OF this] m' show ?thesis by simp
  qed
qed

lemma iter_frames_length: "length (iter_frames body m w vs) = length vs"
  by (induction vs arbitrary: m w) (auto split: prod.splits)

lemma cleanup_exit_drain_heap:
  "a \<noteq> dicts_at (global_frame w) \<Longrightarrow> heap (snd (cleanup_exit_drain m w)) a = heap w a"
proof (cases "ref_count m = 1 \<and> outermost w = Some (ident m)")
  case True
  assume a: "a \<noteq> dicts_at (global_frame w)"
  obtain m1 w1 where d: "drain_loop m (w\<lparr>outermost := None\<rparr>)
      (rev (name_to_dim (heap w (dicts_at (global_frame w))))) = (m1, w1)"
    by (cases "drain_loop m (w\<lparr>outermost := None\<rparr>)
      (rev (name_to_dim (heap w (dicts_at (global_frame w)))))")
  have gf: "global_frame (w\<lparr>outermost := None\<rparr>) = global_frame w"
    by (simp add: global_frame_def)
  from drain_loop_heap [OF d, of a] a have "heap w1 a = heap w a"
    by (simp add: gf)
  with True d show ?thesis
    by (simp add: cleanup_exit_drain_def)
next
  case False
  then show ?thesis by (auto simp: cleanup_exit_drain_def)
qed

lemma cleanup_enter_heap:
  "a \<noteq> dicts_at (global_frame w) \<Longrightarrow> heap (snd (cleanup_enter m w)) a = heap w a"
proof -
  assume a: "a \<noteq> dicts_at (global_frame w)"
  have gf: "global_frame (w\<lparr>outermost := Some (ident m)\<rparr>) = global_frame w"
    by (simp add: global_frame_def)
  show ?thesis
    using a by (simp add: cleanup_enter_def restore_loop_heap gf)
qed

lemma cleanup_exit_drain_local_fields [simp]:
  "m_keep (fst (cleanup_exit_drain m w)) = m_keep m"
  "saved_frames (fst (cleanup_exit_drain m w)) = saved_frames m"
  "m_iter_parents (fst (cleanup_exit_drain m w)) = m_iter_parents m"
  "history (fst (cleanup_exit_drain m w)) = history m"
  using cleanup_exit_drain_fst [of m w] by auto

lemma local_enter_fields:
  "m_keep (fst (local_enter m w)) = m_keep m"
  by (simp add: local_enter_def)

lemma local_enter_heap_replay:
  assumes "m_keep m" and "saved_frames m \<noteq> []" and "stack w \<noteq> []"
    and "dicts_at (last (saved_frames m)) \<noteq> dicts_at (global_frame w)"
  shows "heap (snd (local_enter m w)) (dicts_at (last (saved_frames m)))
       = heap w (dicts_at (last (saved_frames m)))"
proof -
  have "global_frame (push w f) = global_frame w" for f
    using assms(3) by (simp add: global_frame_def push_def)
  with assms show ?thesis
    by (simp add: local_enter_def cleanup_enter_heap push_def)
qed

lemma frame_read_hit:
  assumes "map_of (name_to_dim (heap w (dicts_at f))) x = Some d"
  shows "frame_read w f (Some x) None = (Some x, Some d, True)"
proof -
  from assms have "x \<in> fst ` set (name_to_dim (heap w (dicts_at f)))"
    by (metis domI dom_map_of_conv_image_fst)
  with assms show ?thesis
    by (simp add: frame_read_def StackFrame_read_def)
qed

lemma request_stack:
  "request w name dim = Inr (r, w') \<Longrightarrow> stack w' = stack w"
  by (auto simp: request_def split: option.splits prod.splits if_splits sum.splits)

lemma request_nesting:
  "request w name dim = Inr (r, w') \<Longrightarrow> nesting w' = nesting w"
  by (auto simp: request_def split: option.splits prod.splits if_splits sum.splits)

lemma local_exit_returns:
  assumes "1 < length (stack w)"
    and "ref_count m \<noteq> 1 \<or> (nesting w \<noteq> [] \<and> last (nesting w) = ident m)"
  shows "\<exists>m' w'. local_exit m w = Inr (m', w')"
proof -
  let ?m1 = "if m_keep m
             then m\<lparr>saved_frames := saved_frames m @ [StackFrame (dicts_at (last (stack w))) [] [] (m_keep m)]\<rparr>
             else m"
  let ?w1 = "w\<lparr>stack := butlast (stack w)\<rparr>"
  have e: "local_exit m w = cleanup_exit ?m1 ?w1"
    using assms(1) by (simp add: local_exit_def pop_def)
  have "ref_count ?m1 \<noteq> 1 \<or> (nesting ?w1 \<noteq> [] \<and> last (nesting ?w1) = ident ?m1)"
    using assms(2) by simp
  from cleanup_exit_returns [OF this] e show ?thesis
    by (simp del: if_split)
qed

lemma update_absent:
  "k \<notin> fst ` set al \<Longrightarrow> AList.update k v al = al @ [(k, v)]"
  by (induction al) auto

lemma write_absent:
  assumes "n \<notin> fst ` set (name_to_dim fr)" and "d \<notin> fst ` set (dim_to_name fr)"
  shows "StackFrame_write fr n d =
     \<lparr>name_to_dim = name_to_dim fr @ [(n, d)], dim_to_name = dim_to_name fr @ [(d, n)]\<rparr>"
  using assms by (simp add: StackFrame_write_def update_absent)

lemma write_preserves_absent:
  assumes inv: "mutual_inverses fr"
    and n: "n \<notin> fst ` set (name_to_dim fr)" and d: "d \<notin> fst ` set (dim_to_name fr)"
  shows "mutual_inverses (StackFrame_write fr n d)"
proof -
  from inv have dn: "distinct (map fst (name_to_dim fr))" and dd: "distinct (map fst (dim_to_name fr))"
    and eq: "set (dim_to_name fr) = (\<lambda>(n, d). (d, n)) ` set (name_to_dim fr)"
    by (simp_all add: mutual_inverses_def)
  have 1: "distinct (map fst (name_to_dim fr @ [(n, d)]))"
    using dn n by simp
  have 2: "distinct (map fst (dim_to_name fr @ [(d, n)]))"
    using dd d by simp
  have 3: "set (dim_to_name fr @ [(d, n)]) = (\<lambda>(n, d). (d, n)) ` set (name_to_dim fr @ [(n, d)])"
    by (simp add: eq)
  from 1 2 3 show ?thesis
    by (simp add: write_absent [OF n d] mutual_inverses_def)
qed

lemma write_bound_same:
  assumes inv: "mutual_inverses fr"
    and n: "(n, d) \<in> set (name_to_dim fr)" and d: "(d, n) \<in> set (dim_to_name fr)"
  shows "StackFrame_write fr n d = fr"
proof -
  from inv have dn: "distinct (map fst (name_to_dim fr))" and dd: "distinct (map fst (dim_to_name fr))"
    by (simp_all add: mutual_inverses_def)
  have "map_of (name_to_dim fr) n = Some d"
    using dn n by (rule map_of_is_SomeI)
  then have 1: "AList.update n d (name_to_dim fr) = name_to_dim fr"
    by (rule update_triv)
  have "map_of (dim_to_name fr) d = Some n"
    using dd d by (rule map_of_is_SomeI)
  then have 2: "AList.update d n (dim_to_name fr) = dim_to_name fr"
    by (rule update_triv)
  show ?thesis
    by (simp add: StackFrame_write_def 1 2)
qed

lemma free_preserves:
  assumes inv: "mutual_inverses fr"
    and c: "(n, d) \<in> set (name_to_dim fr) \<or>
            (n \<notin> fst ` set (name_to_dim fr) \<and> d \<notin> fst ` set (dim_to_name fr))"
  shows "mutual_inverses (StackFrame_free fr n d)"
proof -
  from inv have dn: "distinct (map fst (name_to_dim fr))" and dd: "distinct (map fst (dim_to_name fr))"
    and eq: "set (dim_to_name fr) = (\<lambda>(n, d). (d, n)) ` set (name_to_dim fr)"
    by (simp_all add: mutual_inverses_def)
  have key: "v \<noteq> d \<longleftrightarrow> k \<noteq> n" if kv: "(k, v) \<in> set (name_to_dim fr)" for k v
  proof (cases "(n, d) \<in> set (name_to_dim fr)")
    case True
    have a: "k = n \<Longrightarrow> v = d"
      using eq_key_imp_eq_value [OF dn] kv True by blast
    from kv True have "(v, k) \<in> set (dim_to_name fr)" "(d, n) \<in> set (dim_to_name fr)"
      by (auto simp: eq)
    then have b: "v = d \<Longrightarrow> k = n"
      using eq_key_imp_eq_value [OF dd] by blast
    from a b show ?thesis by blast
  next
    case False
    with c have n: "n \<notin> fst ` set (name_to_dim fr)" and d: "d \<notin> fst ` set (dim_to_name fr)"
      by simp_all
    from kv n have 1: "k \<noteq> n" by force
    from kv have "(v, k) \<in> set (dim_to_name fr)" by (auto simp: eq)
    with d have 2: "v \<noteq> d" by force
    from 1 2 show ?thesis by simp
  qed
  have 1: "distinct (map fst (AList.delete n (name_to_dim fr)))"
    using dn by (rule distinct_delete)
  have 2: "distinct (map fst (AList.delete d (dim_to_name fr)))"
    using dd by (rule distinct_delete)
  have 3: "set (AList.delete d (dim_to_name fr))
         = (\<lambda>(n, d). (d, n)) ` set (AList.delete n (name_to_dim fr))"
  proof (intro set_eqI iffI)
    fix p
    assume "p \<in> set (AList.delete d (dim_to_name fr))"
    then have p: "p \<in> set (dim_to_name fr)" "fst p \<noteq> d"
      by (auto simp: AList.delete_eq)
    from p(1) obtain k v where kv: "(k, v) \<in> set (name_to_dim fr)" "p = (v, k)"
      by (auto simp: eq)
    with p(2) key [OF kv(1)] have "k \<noteq> n" by simp
    with kv have "(k, v) \<in> set (AList.delete n (name_to_dim fr))"
      by (auto simp: AList.delete_eq)
    with kv(2) show "p \<in> (\<lambda>(n, d). (d, n)) ` set (AList.delete n (name_to_dim fr))"
      by force
  next
    fix p
    assume "p \<in> (\<lambda>(n, d). (d, n)) ` set (AList.delete n (name_to_dim fr))"
    then obtain k v where kv: "(k, v) \<in> set (AList.delete n (name_to_dim fr))" "p = (v, k)"
      by auto
    from kv(1) have in_n: "(k, v) \<in> set (name_to_dim fr)" and kn: "k \<noteq> n"
      by (auto simp: AList.delete_eq)
    from key [OF in_n] kn have "v \<noteq> d" by simp
    moreover from in_n have "(v, k) \<in> set (dim_to_name fr)" by (auto simp: eq)
    ultimately show "p \<in> set (AList.delete d (dim_to_name fr))"
      using kv(2) by (auto simp: AList.delete_eq)
  qed
  from 1 2 3 show ?thesis
    by (simp add: StackFrame_free_def mutual_inverses_def)
qed

lemma inverses_injective:
  assumes inv: "mutual_inverses fr"
  shows "(\<forall>p \<in> set (name_to_dim fr). \<forall>q \<in> set (name_to_dim fr). snd p = snd q \<longrightarrow> p = q) \<and>
         (\<forall>p \<in> set (dim_to_name fr). \<forall>q \<in> set (dim_to_name fr). snd p = snd q \<longrightarrow> p = q)"
proof -
  from inv have dn: "distinct (map fst (name_to_dim fr))" and dd: "distinct (map fst (dim_to_name fr))"
    and eq: "set (dim_to_name fr) = (\<lambda>(n, d). (d, n)) ` set (name_to_dim fr)"
    by (simp_all add: mutual_inverses_def)
  have sw: "(v, k) \<in> set (dim_to_name fr) \<longleftrightarrow> (k, v) \<in> set (name_to_dim fr)" for k v
    by (force simp: eq)
  have a: "p = q" if pq: "p \<in> set (name_to_dim fr)" "q \<in> set (name_to_dim fr)" "snd p = snd q" for p q
  proof -
    obtain k1 v where p: "p = (k1, v)" by (cases p)
    obtain k2 where q: "q = (k2, v)" using pq(3) p by (cases q) simp
    from pq(1,2) have "(v, k1) \<in> set (dim_to_name fr)" "(v, k2) \<in> set (dim_to_name fr)"
      by (simp_all add: p q sw)
    then have "k1 = k2"
      by (rule eq_key_imp_eq_value [OF dd])
    with p q show ?thesis by simp
  qed
  have b: "p = q" if pq: "p \<in> set (dim_to_name fr)" "q \<in> set (dim_to_name fr)" "snd p = snd q" for p q
  proof -
    obtain k1 v where p: "p = (k1, v)" by (cases p)
    obtain k2 where q: "q = (k2, v)" using pq(3) p by (cases q) simp
    from pq(1,2) have "(v, k1) \<in> set (name_to_dim fr)" "(v, k2) \<in> set (name_to_dim fr)"
      by (simp_all add: p q sw)
    then have "k1 = k2"
      by (rule eq_key_imp_eq_value [OF dn])
    with p q show ?thesis by simp
  qed
  from a b show ?thesis by blast
qed

lemma request_cases:
  assumes u: "unpack name dim = Some (rn, rd, t)"
    and r: "request w name dim = Inr ((Some n', Some d'), w')"
  shows "w' = w \<or>
     (snd (snd (read_loop w (read_frames w t) rn rd)) = False \<and>
      gendim w (NameRequest rn t) (DimRequest rd t) = Inr (n', d') \<and>
      w' = write_loop w (write_frames w t) n' d')"
proof (cases "snd (snd (read_loop w (read_frames w t) rn rd))")
  case True
  obtain a b c where rl: "read_loop w (read_frames w t) rn rd = (a, b, c)"
    by (cases "read_loop w (read_frames w t) rn rd")
  with True have "c" by simp
  with u r rl have "w' = w"
    by (simp add: request_def split: if_splits)
  then show ?thesis ..
next
  case False
  from r have ne: "stack w \<noteq> []"
    using u by (auto simp: request_def split: if_splits)
  from False have miss: "snd (snd (read_loop w (read_frames w t) rn rd)) = False" by simp
  from request_miss [OF u ne miss] r
  have "gendim w (NameRequest rn t) (DimRequest rd t) = Inr (n', d') \<and>
      w' = write_loop w (write_frames w t) n' d'"
    by (cases "gendim w (NameRequest rn t) (DimRequest rd t)"; simp split: prod.splits)
  with miss show ?thesis by simp
qed

lemma gendim_name:
  "gendim w (NameRequest (Some n) t) dr = Inr (n', d') \<Longrightarrow> n' = n"
proof -
  assume g: "gendim w (NameRequest (Some n) t) dr = Inr (n', d')"
  define fd where "fd = (case dr_dim dr of
                    None \<Rightarrow>
                      gendim_loop w (conflict_frames w)
                        (case (if dr_dim_type dr \<noteq> VISIBLE then first_available_dim w else Some (- 1)) of
                           None \<Rightarrow> - 1 | Some d \<Rightarrow> d)
                  | Some d \<Rightarrow> d)"
  from g show ?thesis
    unfolding gendim_def Let_def fd_def [symmetric]
    by (simp split: if_splits option.splits)
qed

lemma write_sub_conflict: "set (write_frames w t) \<subseteq> set (conflict_frames w)"
  by (auto simp: write_frames_def conflict_frames_def)

lemma write_sub_read: "set (write_frames w t) \<subseteq> set (read_frames w t)"
  by (auto simp: write_frames_def read_frames_def)

lemma miss_name_absent:
  assumes "snd (snd (read_loop w (read_frames w t) (Some n) rd)) = False"
    and "f \<in> set (read_frames w t)"
  shows "n \<notin> fst ` set (name_to_dim (heap w (dicts_at f)))"
proof -
  obtain a b c where rl: "read_loop w (read_frames w t) (Some n) rd = (a, b, c)"
    by (cases "read_loop w (read_frames w t) (Some n) rd")
  with assms(1) have "read_loop w (read_frames w t) (Some n) rd = (a, b, False)" by simp
  from read_loop_miss_frame [OF this assms(2)]
  have "frame_read w f (Some n) rd = (Some n, rd, False)" .
  then show ?thesis
    by (simp add: frame_read_def StackFrame_read_def)
qed

lemma conflict_slot_absent:
  assumes "gendim w nr dr = Inr (n', d')" and "f \<in> set (conflict_frames w)"
  shows "d' \<notin> fst ` set (dim_to_name (heap w (dicts_at f)))"
  using gendim_ok [OF assms(1)] assms(2) by (auto simp: collides_def list_ex_iff)

lemma write_loop_inverses:
  assumes g: "gendim w nr dr = Inr (n', d')"
    and na: "\<forall>f \<in> set (write_frames w t). n' \<notin> fst ` set (name_to_dim (heap w (dicts_at f)))"
    and inv: "mutual_inverses (heap w a)"
  shows "mutual_inverses (heap (write_loop w (write_frames w t) n' d') a)"
proof (cases "a \<in> dicts_at ` set (write_frames w t)")
  case True
  then obtain f where f: "f \<in> set (write_frames w t)" "a = dicts_at f" by blast
  from f na have 1: "n' \<notin> fst ` set (name_to_dim (heap w a))" by simp
  from f write_sub_conflict [of w t] have "f \<in> set (conflict_frames w)" by blast
  from conflict_slot_absent [OF g this] f have 2: "d' \<notin> fst ` set (dim_to_name (heap w a))"
    by simp
  from write_preserves_absent [OF inv 1 2] True show ?thesis
    by (simp add: write_loop_heap)
next
  case False
  with inv show ?thesis by (simp add: write_loop_heap)
qed

lemma write_loop_unique:
  assumes g: "gendim w nr dr = Inr (n', d')"
    and na: "\<forall>f \<in> set (write_frames w t). n' \<notin> fst ` set (name_to_dim (heap w (dicts_at f)))"
    and inv: "\<forall>f \<in> set (conflict_frames w). mutual_inverses (heap w (dicts_at f))"
    and uniq: "slots_unique w (conflict_frames w)"
  shows "slots_unique (write_loop w (write_frames w t) n' d') (conflict_frames w)"
proof -
  let ?w' = "write_loop w (write_frames w t) n' d'"
  have sub: "p \<in> set (name_to_dim (heap w (dicts_at f))) \<or> p = (n', d')"
    if f: "f \<in> set (conflict_frames w)" and p: "p \<in> set (name_to_dim (heap ?w' (dicts_at f)))" for f p
  proof (cases "dicts_at f \<in> dicts_at ` set (write_frames w t)")
    case True
    then obtain f' where f': "f' \<in> set (write_frames w t)" "dicts_at f = dicts_at f'" by blast
    from f' na have 1: "n' \<notin> fst ` set (name_to_dim (heap w (dicts_at f)))" by simp
    from conflict_slot_absent [OF g f] have 2: "d' \<notin> fst ` set (dim_to_name (heap w (dicts_at f)))" .
    from p True show ?thesis
      by (auto simp: write_loop_heap write_absent [OF 1 2])
  next
    case False
    with p show ?thesis by (simp add: write_loop_heap)
  qed
  have old: "snd q \<noteq> d'"
    if f: "f \<in> set (conflict_frames w)" and q: "q \<in> set (name_to_dim (heap w (dicts_at f)))" for f q
  proof
    assume e: "snd q = d'"
    from inv f have "set (dim_to_name (heap w (dicts_at f)))
        = (\<lambda>(n, d). (d, n)) ` set (name_to_dim (heap w (dicts_at f)))"
      by (simp add: mutual_inverses_def)
    with q e have "(d', fst q) \<in> set (dim_to_name (heap w (dicts_at f)))"
      by force
    then have "d' \<in> fst ` set (dim_to_name (heap w (dicts_at f)))" by force
    with conflict_slot_absent [OF g f] show False by simp
  qed
  show ?thesis
    unfolding slots_unique_def
  proof (intro ballI impI)
    fix f g' p q
    assume f: "f \<in> set (conflict_frames w)" and g': "g' \<in> set (conflict_frames w)"
      and p: "p \<in> set (name_to_dim (heap ?w' (dicts_at f)))"
      and q: "q \<in> set (name_to_dim (heap ?w' (dicts_at g')))"
      and e: "snd p = snd q"
    from sub [OF f p] sub [OF g' q] show "fst p = fst q"
    proof (elim disjE)
      assume "p \<in> set (name_to_dim (heap w (dicts_at f)))" "q \<in> set (name_to_dim (heap w (dicts_at g')))"
      with uniq f g' e show ?thesis
        unfolding slots_unique_def by blast
    next
      assume a: "p \<in> set (name_to_dim (heap w (dicts_at f)))" "q = (n', d')"
      from old [OF f a(1)] a(2) e show ?thesis by simp
    next
      assume a: "p = (n', d')" "q \<in> set (name_to_dim (heap w (dicts_at g')))"
      from old [OF g' a(2)] a(1) e show ?thesis by simp
    next
      assume "p = (n', d')" "q = (n', d')"
      then show ?thesis by simp
    qed
  qed
qed

lemma conflict_frames_write_loop [simp]:
  "conflict_frames (write_loop w fs n d) = conflict_frames w"
  by (simp add: conflict_frames_def current_frame_def global_frame_def)

section \<open>The claims\<close>

text \<open>
  C1 (as stated): on a fresh allocator with the boundary unset, the request
  \<open>NameRequest(None, LOCAL)\<close> paired with slot \<open>None\<close> returns \<open>"_pyro_dim_1"\<close> and \<open>-1\<close>.
  The code derives the name from the slot carried by the request, before any slot is
  searched: with no slot the negation \<open>-None\<close> raises \<open>TypeError\<close>, both on the freshly
  constructed allocator (boundary \<open>-1\<close>) and with the boundary set to \<open>None\<close>.
\<close>

theorem C1_nameless_slotless_request_raises:
  "request init_DimStack (NameReq (NameRequest None LOCAL)) (Dim None) = Inl TypeError \<and>
   request (init_DimStack\<lparr>first_available_dim := None\<rparr>)
       (NameReq (NameRequest None LOCAL)) (Dim None) = Inl TypeError"
  by (simp add: eval_defs)

text \<open>
  C1 (amended): on a fresh allocator with the boundary unset, the request
  \<open>NameRequest(None, LOCAL)\<close> paired with slot \<open>-1\<close> returns the synthesized name
  \<open>"_pyro_dim_1"\<close> with slot \<open>-1\<close>, and a second such request paired with slot \<open>-2\<close> in
  the same frame returns \<open>"_pyro_dim_2"\<close> with slot \<open>-2\<close>.
\<close>

theorem C1_nameless_requests_with_slot:
  "\<exists>w1 w2.
     request (init_DimStack\<lparr>first_available_dim := None\<rparr>)
         (NameReq (NameRequest None LOCAL)) (Dim (Some (- 1)))
       = Inr ((Some ''_pyro_dim_1'', Some (- 1)), w1) \<and>
     request w1 (NameReq (NameRequest None LOCAL)) (Dim (Some (- 2)))
       = Inr ((Some ''_pyro_dim_2'', Some (- 2)), w2)"
  by (simp add: eval_defs)

text \<open>
  C2 (as stated): every LOCAL or GLOBAL request that misses and supplies no slot
  returns the first free slot or raises the allocation-exhausted error. A GLOBAL request
  that supplies neither a name nor a slot misses on the fresh allocator, where slot
  \<open>-1\<close> is free in every conflict frame, and raises \<open>TypeError\<close>: it neither returns a
  slot nor raises the allocation-exhausted \<open>ValueError\<close>.
\<close>

theorem C2_nameless_global_request_raises:
  "snd (snd (read_loop init_DimStack (read_frames init_DimStack GLOBAL) None None)) = False \<and>
   \<not> collides init_DimStack (conflict_frames init_DimStack) (- 1) \<and>
   request init_DimStack (NameReq (NameRequest None GLOBAL)) (Dim None) = Inl TypeError"
  by (simp add: eval_defs)

text \<open>
  C2 (amended): for every LOCAL or GLOBAL request that supplies a name, misses in its
  read set and supplies no slot, the allocator returns the first slot, starting from
  \<open>first_available_dim\<close> (or \<open>-1\<close> when it is \<open>None\<close>) and decrementing by 1, that is
  absent from \<open>dim_to_name\<close> of every conflict frame (current frame, global frame, the
  current frame's parents and its iteration parents); it raises the allocation-exhausted
  \<open>ValueError\<close> exactly when every slot from the start down to \<open>-25\<close> is taken.
\<close>

theorem C2_first_free_slot:
  assumes req: "unpack name dim = Some (Some n, None, dim_type)"
    and ty: "dim_type = LOCAL \<or> dim_type = GLOBAL"
    and ne: "stack w \<noteq> []"
    and miss: "snd (snd (read_loop w (read_frames w dim_type) (Some n) None)) = False"
  shows
    "let start = (case first_available_dim w of None \<Rightarrow> - 1 | Some b \<Rightarrow> b);
         taken = (\<lambda>d. \<exists>f \<in> set ([current_frame w, global_frame w] @ parents (current_frame w)
                                   @ iter_parents (current_frame w)).
                         d \<in> fst ` set (dim_to_name (heap w (dicts_at f))))
     in (request w name dim = Inl ValueError \<longleftrightarrow> (\<forall>d. - 25 \<le> d \<and> d \<le> start \<longrightarrow> taken d)) \<and>
        ((\<exists>d. - 25 \<le> d \<and> d \<le> start \<and> \<not> taken d) \<longrightarrow>
         (\<exists>d w'. request w name dim = Inr ((Some n, Some d), w') \<and>
                  - 25 \<le> d \<and> d \<le> start \<and> \<not> taken d \<and>
                  (\<forall>d'. d < d' \<and> d' \<le> start \<longrightarrow> taken d')))"
proof -
  define start where "start = (case first_available_dim w of None \<Rightarrow> - 1 | Some b \<Rightarrow> b)"
  define d0 where "d0 = gendim_loop w (conflict_frames w) start"
  have nv: "dim_type \<noteq> VISIBLE" using ty by auto
  have free: "\<not> collides w (conflict_frames w) d0"
    by (simp add: d0_def gendim_loop_free)
  have le: "d0 \<le> start"
    by (simp add: d0_def gendim_loop_le)
  have between: "collides w (conflict_frames w) d'" if "d0 < d'" "d' \<le> start" for d'
    using that gendim_loop_between [of w "conflict_frames w" start d'] by (simp add: d0_def)
  have res: "request w name dim =
      (if d0 < - 25 then Inl ValueError
       else Inr ((Some n, Some d0), write_loop w (write_frames w dim_type) n d0))"
    using request_miss [OF req ne miss] gendim_named_no_slot [OF nv, of w n]
    by (simp add: Let_def d0_def start_def)
  show ?thesis
  proof (cases "d0 < - 25")
    case True
    then have "collides w (conflict_frames w) d" if "- 25 \<le> d" "d \<le> start" for d
      using that between [of d] by simp
    with True res show ?thesis
      unfolding Let_def start_def [symmetric] collides_conflict_iff [symmetric]
      by simp
  next
    case False
    then have ex: "- 25 \<le> d0 \<and> d0 \<le> start \<and> \<not> collides w (conflict_frames w) d0"
      using free le by simp
    then have notall: "\<not> (\<forall>d. - 25 \<le> d \<and> d \<le> start \<longrightarrow> collides w (conflict_frames w) d)"
      by blast
    have fst: "\<forall>d'. d0 < d' \<and> d' \<le> start \<longrightarrow> collides w (conflict_frames w) d'"
      using between by blast
    from False res have r: "request w name dim =
        Inr ((Some n, Some d0), write_loop w (write_frames w dim_type) n d0)"
      by simp
    from r ex fst have "\<exists>d w'. request w name dim = Inr ((Some n, Some d), w') \<and>
                  - 25 \<le> d \<and> d \<le> start \<and> \<not> collides w (conflict_frames w) d \<and>
                  (\<forall>d'. d < d' \<and> d' \<le> start \<longrightarrow> collides w (conflict_frames w) d')"
      by blast
    with r notall show ?thesis
      unfolding Let_def start_def [symmetric] collides_conflict_iff [symmetric]
      by simp
  qed
qed

theorem C2_first_free_slot_witness:
  "snd (snd (read_loop
       (init_DimStack\<lparr>heap := (heap init_DimStack)
          (0 := \<lparr>name_to_dim = [(''x'', - 1)], dim_to_name = [(- 1, ''x'')]\<rparr>)\<rparr>)
       (read_frames
          (init_DimStack\<lparr>heap := (heap init_DimStack)
             (0 := \<lparr>name_to_dim = [(''x'', - 1)], dim_to_name = [(- 1, ''x'')]\<rparr>)\<rparr>) LOCAL)
       (Some ''y'') None)) = False \<and>
   (\<exists>w'. request
       (init_DimStack\<lparr>heap := (heap init_DimStack)
          (0 := \<lparr>name_to_dim = [(''x'', - 1)], dim_to_name = [(- 1, ''x'')]\<rparr>)\<rparr>)
       (Name (Some ''y'')) (DimReq (DimRequest None LOCAL)) = Inr ((Some ''y'', Some (- 2)), w'))"
proof -
  define W where "W = init_DimStack\<lparr>heap := (heap init_DimStack)
          (0 := \<lparr>name_to_dim = [(''x'', - 1)], dim_to_name = [(- 1, ''x'')]\<rparr>)\<rparr>"
  have h1: "unpack (Name (Some ''y'')) (DimReq (DimRequest None LOCAL)) = Some (Some ''y'', None, LOCAL)"
    by simp
  have h2: "LOCAL = LOCAL \<or> LOCAL = GLOBAL" by simp
  have h3: "stack W \<noteq> []" by (simp add: W_def init_DimStack_def)
  have h4: "snd (snd (read_loop W (read_frames W LOCAL) (Some ''y'') None)) = False"
    by (simp add: W_def eval_defs)
  from C2_first_free_slot [OF h1 h2 h3 h4] h4 show ?thesis
    unfolding W_def by (simp add: eval_defs gendim_loop.simps)
qed

text \<open>
  C3 (as stated): for every VISIBLE request that misses and supplies no slot, synthesis
  is restricted to slot \<open>-1\<close>, and with the boundary at \<open>-2\<close> the request succeeds with
  slot \<open>-1\<close> unless slot \<open>-1\<close> is bound. Two runs of the code refute it. A VISIBLE request
  that supplies neither a name nor a slot misses on the fresh allocator with the boundary
  at \<open>-2\<close>, slot \<open>-1\<close> is free, and it raises \<open>TypeError\<close> instead of returning slot \<open>-1\<close>.
  And with the boundary at \<open>-3\<close> and slot \<open>-1\<close> bound to another name, the VISIBLE request
  for the name \<open>i\<close> misses and returns slot \<open>-2\<close>: the search walks down from \<open>-1\<close>, and
  any slot strictly above the boundary is accepted.
\<close>

theorem C3_nameless_visible_request_raises:
  "snd (snd (read_loop (init_DimStack\<lparr>first_available_dim := Some (- 2)\<rparr>)
       (read_frames (init_DimStack\<lparr>first_available_dim := Some (- 2)\<rparr>) VISIBLE) None None)) = False \<and>
   \<not> collides (init_DimStack\<lparr>first_available_dim := Some (- 2)\<rparr>)
       (conflict_frames (init_DimStack\<lparr>first_available_dim := Some (- 2)\<rparr>)) (- 1) \<and>
   request (init_DimStack\<lparr>first_available_dim := Some (- 2)\<rparr>)
       (NameReq (NameRequest None VISIBLE)) (Dim None) = Inl TypeError \<and>
   snd (snd (read_loop
       (init_DimStack\<lparr>first_available_dim := Some (- 3), heap := (heap init_DimStack)
          (0 := \<lparr>name_to_dim = [(''j'', - 1)], dim_to_name = [(- 1, ''j'')]\<rparr>)\<rparr>)
       (read_frames
          (init_DimStack\<lparr>first_available_dim := Some (- 3), heap := (heap init_DimStack)
             (0 := \<lparr>name_to_dim = [(''j'', - 1)], dim_to_name = [(- 1, ''j'')]\<rparr>)\<rparr>) VISIBLE)
       (Some ''i'') None)) = False \<and>
   request
       (init_DimStack\<lparr>first_available_dim := Some (- 3), heap := (heap init_DimStack)
          (0 := \<lparr>name_to_dim = [(''j'', - 1)], dim_to_name = [(- 1, ''j'')]\<rparr>)\<rparr>)
       (Name (Some ''i'')) (DimReq (DimRequest None VISIBLE))
     = Inr ((Some ''i'', Some (- 2)),
            init_DimStack\<lparr>first_available_dim := Some (- 3), heap := (heap init_DimStack)
              (0 := \<lparr>name_to_dim = [(''j'', - 1), (''i'', - 2)],
                     dim_to_name = [(- 1, ''j''), (- 2, ''i'')]\<rparr>)\<rparr>)"
  by (simp add: eval_defs gendim_loop.simps)

text \<open>
  C3 (amended): for every VISIBLE request that supplies a name, misses and supplies no
  slot, with the boundary set to \<open>b\<close>: synthesis starts at slot \<open>-1\<close> and takes the first
  slot, going down by 1, that is absent from \<open>dim_to_name\<close> of every conflict frame; the
  request succeeds with that slot when it is at least \<open>-25\<close> and strictly above \<open>b\<close>, and
  fails with the allocation-exhausted \<open>ValueError\<close> otherwise. With the boundary set at
  \<open>-2\<close> the request fails with that error if slot \<open>-1\<close> is bound in a conflict frame, and
  otherwise succeeds returning slot \<open>-1\<close>.
\<close>

theorem C3_visible_slot:
  assumes req: "unpack name dim = Some (Some n, None, VISIBLE)"
    and ne: "stack w \<noteq> []"
    and boundary: "first_available_dim w = Some b"
    and miss: "snd (snd (read_loop w (read_frames w VISIBLE) (Some n) None)) = False"
  shows
    "let taken = (\<lambda>d. \<exists>f \<in> set ([current_frame w, global_frame w] @ parents (current_frame w)
                                   @ iter_parents (current_frame w)).
                         d \<in> fst ` set (dim_to_name (heap w (dicts_at f))))
     in (\<exists>d. d \<le> - 1 \<and> \<not> taken d \<and> (\<forall>d'. d < d' \<and> d' \<le> - 1 \<longrightarrow> taken d') \<and>
             (if - 25 \<le> d \<and> b < d
              then \<exists>w'. request w name dim = Inr ((Some n, Some d), w')
              else request w name dim = Inl ValueError)) \<and>
        (b = - 2 \<longrightarrow>
           (taken (- 1) \<longrightarrow> request w name dim = Inl ValueError) \<and>
           (\<not> taken (- 1) \<longrightarrow>
              (\<exists>w'. request w name dim = Inr ((Some n, Some (- 1)), w'))))"
proof -
  define d0 where "d0 = gendim_loop w (conflict_frames w) (- 1)"
  have free: "\<not> collides w (conflict_frames w) d0"
    by (simp add: d0_def gendim_loop_free)
  have le: "d0 \<le> - 1"
    by (simp add: d0_def gendim_loop_le)
  have between: "\<forall>d'. d0 < d' \<and> d' \<le> - 1 \<longrightarrow> collides w (conflict_frames w) d'"
    using gendim_loop_between [of w "conflict_frames w" "- 1"] by (simp add: d0_def)
  have g: "gendim w (NameRequest (Some n) VISIBLE) (DimRequest None VISIBLE) =
      (if d0 < - 25 \<or> d0 \<le> b then Inl ValueError else Inr (n, d0))"
    using free boundary by (simp add: gendim_def Let_def MAX_DIM_def d0_def [symmetric])
  have res: "if - 25 \<le> d0 \<and> b < d0
             then \<exists>w'. request w name dim = Inr ((Some n, Some d0), w')
             else request w name dim = Inl ValueError"
    using g request_miss [OF req ne miss] by auto
  have gen: "\<exists>d. d \<le> - 1 \<and> \<not> collides w (conflict_frames w) d \<and>
             (\<forall>d'. d < d' \<and> d' \<le> - 1 \<longrightarrow> collides w (conflict_frames w) d') \<and>
             (if - 25 \<le> d \<and> b < d
              then \<exists>w'. request w name dim = Inr ((Some n, Some d), w')
              else request w name dim = Inl ValueError)"
    using le free between res by blast
  have two: "(collides w (conflict_frames w) (- 1) \<longrightarrow> request w name dim = Inl ValueError) \<and>
           (\<not> collides w (conflict_frames w) (- 1) \<longrightarrow>
              (\<exists>w'. request w name dim = Inr ((Some n, Some (- 1)), w')))"
    if b: "b = - 2"
  proof (cases "collides w (conflict_frames w) (- 1)")
    case True
    with free have "d0 \<noteq> - 1" by auto
    with le have "d0 \<le> - 2" by simp
    with res b True show ?thesis by simp
  next
    case False
    then have "d0 = - 1"
      by (simp add: d0_def gendim_loop_stay)
    with res b False show ?thesis by simp
  qed
  from gen two show ?thesis
    unfolding Let_def collides_conflict_iff [symmetric] by blast
qed

theorem C3_visible_slot_witness:
  "snd (snd (read_loop (init_DimStack\<lparr>first_available_dim := Some (- 2)\<rparr>)
       (read_frames (init_DimStack\<lparr>first_available_dim := Some (- 2)\<rparr>) VISIBLE)
       (Some ''i'') None)) = False \<and>
   (\<exists>w'. request (init_DimStack\<lparr>first_available_dim := Some (- 2)\<rparr>)
       (Name (Some ''i'')) (DimReq (DimRequest None VISIBLE)) = Inr ((Some ''i'', Some (- 1)), w'))"
proof -
  define W where "W = init_DimStack\<lparr>first_available_dim := Some (- 2)\<rparr>"
  have h1: "unpack (Name (Some ''i'')) (DimReq (DimRequest None VISIBLE)) = Some (Some ''i'', None, VISIBLE)"
    by simp
  have h2: "stack W \<noteq> []" by (simp add: W_def init_DimStack_def)
  have h3: "first_available_dim W = Some (- 2)" by (simp add: W_def)
  have h4: "snd (snd (read_loop W (read_frames W VISIBLE) (Some ''i'') None)) = False"
    by (simp add: W_def eval_defs)
  have free: "\<not> (\<exists>f \<in> set ([current_frame W, global_frame W] @ parents (current_frame W)
                                   @ iter_parents (current_frame W)).
                         - 1 \<in> fst ` set (dim_to_name (heap W (dicts_at f))))"
    by (simp add: W_def eval_defs)
  from C3_visible_slot [OF h1 h2 h3 h4] free
  have "\<exists>w'. request W (Name (Some ''i'')) (DimReq (DimRequest None VISIBLE))
      = Inr ((Some ''i'', Some (- 1)), w')"
    unfolding Let_def by blast
  with h4 show ?thesis
    unfolding W_def by simp
qed

text \<open>
  C10: for every request that misses with no name supplied, the synthesized name is
  \<open>"_pyro_dim_"\<close> followed by the negation of the slot carried by the request itself. It
  is computed before the slot search: with no slot in the request the negation raises
  \<open>TypeError\<close> whatever the state is; with slot \<open>k\<close> the request either raises or returns
  that name together with \<open>k\<close>, and it does return them when \<open>k\<close> passes the validation
  of a LOCAL or GLOBAL request.
\<close>

theorem C10_name_from_requested_slot:
  assumes req: "unpack name dim = Some (None, d, dim_type)"
    and ne: "stack w \<noteq> []"
    and miss: "snd (snd (read_loop w (read_frames w dim_type) None d)) = False"
  shows
    "(d = None \<longrightarrow> request w name dim = Inl TypeError) \<and>
     (\<forall>k. d = Some k \<longrightarrow>
        (\<exists>e. request w name dim = Inl e) \<or>
        (\<exists>w'. request w name dim = Inr ((Some (''_pyro_dim_'' @ str_int (- k)), Some k), w'))) \<and>
     (\<forall>k. d = Some k \<and> dim_type \<noteq> VISIBLE \<and> - 25 \<le> k \<and> \<not> collides w (conflict_frames w) k \<longrightarrow>
        (\<exists>w'. request w name dim = Inr ((Some (''_pyro_dim_'' @ str_int (- k)), Some k), w')))"
proof -
  have a: "d = None \<Longrightarrow> request w name dim = Inl TypeError"
    using request_miss [OF req ne miss] by (simp add: gendim_def)
  have b: "(\<exists>e. request w name dim = Inl e) \<or>
        (\<exists>w'. request w name dim = Inr ((Some (''_pyro_dim_'' @ str_int (- k)), Some k), w'))"
    if "d = Some k" for k
    using request_miss [OF req ne miss] that
    by (auto simp: gendim_def Let_def split: option.splits)
  have c: "\<exists>w'. request w name dim = Inr ((Some (''_pyro_dim_'' @ str_int (- k)), Some k), w')"
    if "d = Some k" "dim_type \<noteq> VISIBLE" "- 25 \<le> k" "\<not> collides w (conflict_frames w) k" for k
    using request_miss [OF req ne miss] that
    by (simp add: gendim_def Let_def MAX_DIM_def)
  from a b c show ?thesis by blast
qed

theorem C10_name_from_requested_slot_witness:
  "snd (snd (read_loop init_DimStack (read_frames init_DimStack GLOBAL) None (Some (- 3)))) = False \<and>
   (\<exists>w'. request init_DimStack (NameReq (NameRequest None GLOBAL)) (Dim (Some (- 3)))
      = Inr ((Some ''_pyro_dim_3'', Some (- 3)), w'))"
proof -
  have h1: "unpack (NameReq (NameRequest None GLOBAL)) (Dim (Some (- 3))) = Some (None, Some (- 3), GLOBAL)"
    by simp
  have h2: "stack init_DimStack \<noteq> []" by (simp add: init_DimStack_def)
  have h3: "snd (snd (read_loop init_DimStack (read_frames init_DimStack GLOBAL) None (Some (- 3)))) = False"
    by (simp add: eval_defs)
  from C10_name_from_requested_slot [OF h1 h2 h3] h3 show ?thesis
    by (simp add: eval_defs)
qed

text \<open>
  C4 (as stated): when the owning cleanup messenger leaves its last nesting level, every
  binding of the global frame is freed and the frame is left with no bindings, and the
  next entry that acquires ownership writes the saved pairs back. The drain walks
  \<open>name_to_dim\<close> only. The messenger 7 enters on the fresh allocator and owns the global
  frame; the GLOBAL request for the name \<open>"_pyro_dim_1"\<close> at slot \<open>-2\<close> and then the nameless
  GLOBAL request for slot \<open>-1\<close> (which synthesizes the same name) leave \<open>name_to_dim\<close> with
  the one item \<open>("_pyro_dim_1", -1)\<close>; the messenger's exit frees that pair and leaves slot
  \<open>-2\<close> bound in \<open>dim_to_name\<close>. The saved pairs belong to the messenger that drained:
  another messenger, 8, that acquires ownership next writes nothing back.
\<close>

theorem C4_drain_leaves_slot_bound:
  "cleanup_enter (\<lparr>ident = 7, ref_count = 0, saved_dims = []\<rparr> :: DimStackCleanupMessenger)
       init_DimStack
     = (\<lparr>ident = 7, ref_count = 1, saved_dims = []\<rparr>,
        init_DimStack\<lparr>outermost := Some 7, nesting := [7]\<rparr>) \<and>
   request (init_DimStack\<lparr>outermost := Some 7, nesting := [7]\<rparr>)
       (Name (Some ''_pyro_dim_1'')) (DimReq (DimRequest (Some (- 2)) GLOBAL))
     = Inr ((Some ''_pyro_dim_1'', Some (- 2)),
            init_DimStack\<lparr>outermost := Some 7, nesting := [7], heap := (heap init_DimStack)
              (0 := \<lparr>name_to_dim = [(''_pyro_dim_1'', - 2)],
                     dim_to_name = [(- 2, ''_pyro_dim_1'')]\<rparr>)\<rparr>) \<and>
   request (init_DimStack\<lparr>outermost := Some 7, nesting := [7], heap := (heap init_DimStack)
              (0 := \<lparr>name_to_dim = [(''_pyro_dim_1'', - 2)],
                     dim_to_name = [(- 2, ''_pyro_dim_1'')]\<rparr>)\<rparr>)
       (NameReq (NameRequest None GLOBAL)) (Dim (Some (- 1)))
     = Inr ((Some ''_pyro_dim_1'', Some (- 1)),
            init_DimStack\<lparr>outermost := Some 7, nesting := [7], heap := (heap init_DimStack)
              (0 := \<lparr>name_to_dim = [(''_pyro_dim_1'', - 1)],
                     dim_to_name = [(- 2, ''_pyro_dim_1''), (- 1, ''_pyro_dim_1'')]\<rparr>)\<rparr>) \<and>
   cleanup_exit (\<lparr>ident = 7, ref_count = 1, saved_dims = []\<rparr> :: DimStackCleanupMessenger)
       (init_DimStack\<lparr>outermost := Some 7, nesting := [7], heap := (heap init_DimStack)
              (0 := \<lparr>name_to_dim = [(''_pyro_dim_1'', - 1)],
                     dim_to_name = [(- 2, ''_pyro_dim_1''), (- 1, ''_pyro_dim_1'')]\<rparr>)\<rparr>)
     = Inr (\<lparr>ident = 7, ref_count = 0, saved_dims = [(''_pyro_dim_1'', - 1)]\<rparr>,
            init_DimStack\<lparr>heap := (heap init_DimStack)
              (0 := \<lparr>name_to_dim = [], dim_to_name = [(- 2, ''_pyro_dim_1'')]\<rparr>)\<rparr>) \<and>
   cleanup_enter (\<lparr>ident = 8, ref_count = 0, saved_dims = []\<rparr> :: DimStackCleanupMessenger)
       (init_DimStack\<lparr>heap := (heap init_DimStack)
              (0 := \<lparr>name_to_dim = [], dim_to_name = [(- 2, ''_pyro_dim_1'')]\<rparr>)\<rparr>)
     = (\<lparr>ident = 8, ref_count = 1, saved_dims = []\<rparr>,
        init_DimStack\<lparr>outermost := Some 8, nesting := [8], heap := (heap init_DimStack)
              (0 := \<lparr>name_to_dim = [], dim_to_name = [(- 2, ''_pyro_dim_1'')]\<rparr>)\<rparr>)"
  by (simp add: eval_defs cleanup_enter_def cleanup_exit_def cleanup_exit_drain_def
      ReentrantMessenger_enter_def ReentrantMessenger_exit_def frame_free_def StackFrame_free_def)

text \<open>
  C4 (amended): when the cleanup messenger that owns the global frame leaves its last
  nesting level (\<open>_ref_count\<close> 1, \<open>outermost\<close> is the messenger, which is on top of the
  nesting), every item of \<open>name_to_dim\<close> of the global frame is freed: \<open>name_to_dim\<close> is
  left empty, \<open>dim_to_name\<close> loses every slot that a name was bound to (and is left empty
  when the two dictionaries were mutual inverses), the freed pairs are appended to that
  messenger's \<open>_saved_dims\<close> in reverse insertion order, the owner is cleared and no other
  frame's dictionaries change. When that messenger next enters and acquires ownership
  (\<open>_ref_count\<close> 0, no owner) its saved pairs are written back into the global frame in
  their saved order and its \<open>_saved_dims\<close> is cleared.
\<close>

theorem C4_drain_and_restore:
  assumes ne: "stack w \<noteq> []"
  shows
    "(ref_count m = 1 \<and> outermost w = Some (ident m) \<and>
      nesting w \<noteq> [] \<and> last (nesting w) = ident m \<longrightarrow>
        (\<exists>m' w'. cleanup_exit m w = Inr (m', w') \<and>
             ref_count m' = 0 \<and> outermost w' = None \<and> stack w' = stack w \<and>
             name_to_dim (heap w' (dicts_at (global_frame w'))) = [] \<and>
             dim_to_name (heap w' (dicts_at (global_frame w'))) =
               filter (\<lambda>p. fst p \<notin> snd ` set (name_to_dim (heap w (dicts_at (global_frame w)))))
                 (dim_to_name (heap w (dicts_at (global_frame w)))) \<and>
             (mutual_inverses (heap w (dicts_at (global_frame w))) \<longrightarrow>
                dim_to_name (heap w' (dicts_at (global_frame w'))) = []) \<and>
             saved_dims m' = saved_dims m @ rev (name_to_dim (heap w (dicts_at (global_frame w)))) \<and>
             (\<forall>a. a \<noteq> dicts_at (global_frame w) \<longrightarrow> heap w' a = heap w a))) \<and>
     (ref_count m = 0 \<and> outermost w = None \<longrightarrow>
        (case cleanup_enter m w of
           (m', w') \<Rightarrow>
             ref_count m' = 1 \<and> outermost w' = Some (ident m) \<and> stack w' = stack w \<and>
             saved_dims m' = [] \<and>
             heap w' (dicts_at (global_frame w')) =
               foldl (\<lambda>fr (n, d). StackFrame_write fr n d)
                 (heap w (dicts_at (global_frame w))) (saved_dims m) \<and>
             (\<forall>a. a \<noteq> dicts_at (global_frame w) \<longrightarrow> heap w' a = heap w a)))"
proof -
  let ?G = "dicts_at (global_frame w)"
  let ?items = "rev (name_to_dim (heap w ?G))"
  have exit: "\<exists>m' w'. cleanup_exit m w = Inr (m', w') \<and>
             ref_count m' = 0 \<and> outermost w' = None \<and> stack w' = stack w \<and>
             name_to_dim (heap w' (dicts_at (global_frame w'))) = [] \<and>
             dim_to_name (heap w' (dicts_at (global_frame w'))) =
               filter (\<lambda>p. fst p \<notin> snd ` set (name_to_dim (heap w ?G))) (dim_to_name (heap w ?G)) \<and>
             (mutual_inverses (heap w ?G) \<longrightarrow>
                dim_to_name (heap w' (dicts_at (global_frame w'))) = []) \<and>
             saved_dims m' = saved_dims m @ ?items \<and>
             (\<forall>a. a \<noteq> ?G \<longrightarrow> heap w' a = heap w a)"
    if own: "ref_count m = 1" "outermost w = Some (ident m)"
      and top: "nesting w \<noteq> []" "last (nesting w) = ident m"
  proof -
    obtain m1 w1 where d: "drain_loop m (w\<lparr>outermost := None\<rparr>) ?items = (m1, w1)"
      by (cases "drain_loop m (w\<lparr>outermost := None\<rparr>) ?items")
    have gf: "global_frame (w\<lparr>outermost := None\<rparr>) = global_frame w"
      by (simp add: global_frame_def)
    from drain_loop_messenger [OF d] have m1: "saved_dims m1 = saved_dims m @ ?items"
      "ref_count m1 = ref_count m" "ident m1 = ident m" by simp_all
    from drain_loop_fields [OF d] have f1: "stack w1 = stack w" "outermost w1 = None"
      "nesting w1 = nesting w"
      by simp_all
    then have g1: "global_frame w1 = global_frame w"
      by (simp add: global_frame_def)
    from drain_loop_heap [OF d] have h1: "heap w1 a =
       (if a = ?G
        then \<lparr>name_to_dim = filter (\<lambda>p. fst p \<notin> fst ` set ?items) (name_to_dim (heap w a)),
              dim_to_name = filter (\<lambda>p. fst p \<notin> snd ` set ?items) (dim_to_name (heap w a))\<rparr>
        else heap w a)" for a
      by (simp add: gf)
    have n: "filter (\<lambda>p. fst p \<notin> fst ` set ?items) (name_to_dim (heap w ?G)) = []"
      by (auto simp: filter_empty_conv)
    have dd: "filter (\<lambda>p. fst p \<notin> snd ` set ?items) (dim_to_name (heap w ?G)) = []"
      if "mutual_inverses (heap w ?G)"
      using that by (force simp: filter_empty_conv mutual_inverses_def)
    let ?m' = "m1\<lparr>ref_count := ref_count m1 - 1\<rparr>"
    let ?w' = "w1\<lparr>nesting := butlast (nesting w1)\<rparr>"
    have ce: "cleanup_exit m w = Inr (?m', ?w')"
      using own top d m1 f1
      by (simp add: cleanup_exit_def cleanup_exit_drain_def ReentrantMessenger_exit_def)
    have gw: "global_frame (w1\<lparr>nesting := ns\<rparr>) = global_frame w" for ns
      using f1 by (simp add: global_frame_def)
    have props: "ref_count ?m' = 0 \<and> outermost ?w' = None \<and> stack ?w' = stack w \<and>
             name_to_dim (heap ?w' (dicts_at (global_frame ?w'))) = [] \<and>
             dim_to_name (heap ?w' (dicts_at (global_frame ?w'))) =
               filter (\<lambda>p. fst p \<notin> snd ` set (name_to_dim (heap w ?G))) (dim_to_name (heap w ?G)) \<and>
             (mutual_inverses (heap w ?G) \<longrightarrow>
                dim_to_name (heap ?w' (dicts_at (global_frame ?w'))) = []) \<and>
             saved_dims ?m' = saved_dims m @ ?items \<and>
             (\<forall>a. a \<noteq> ?G \<longrightarrow> heap ?w' a = heap w a)"
      using m1 f1 n dd own by (simp add: gw h1)
    from ce props show ?thesis by blast
  qed
  have enter: "case cleanup_enter m w of
           (m', w') \<Rightarrow>
             ref_count m' = 1 \<and> outermost w' = Some (ident m) \<and> stack w' = stack w \<and>
             saved_dims m' = [] \<and>
             heap w' (dicts_at (global_frame w')) =
               foldl (\<lambda>fr (n, d). StackFrame_write fr n d) (heap w ?G) (saved_dims m) \<and>
             (\<forall>a. a \<noteq> ?G \<longrightarrow> heap w' a = heap w a)"
    if free: "ref_count m = 0" "outermost w = None"
  proof -
    let ?w0 = "w\<lparr>outermost := Some (ident m)\<rparr>"
    have gf: "global_frame ?w0 = global_frame w"
      by (simp add: global_frame_def)
    have g2: "global_frame (restore_loop ?w0 (saved_dims m)) = global_frame w"
      using restore_loop_fields [of ?w0 "saved_dims m"] by (simp add: global_frame_def)
    show ?thesis
      using free restore_loop_fields [of ?w0 "saved_dims m"]
      by (simp add: cleanup_enter_def ReentrantMessenger_enter_def g2 restore_loop_heap gf
          global_frame_def)
  qed
  show ?thesis
  proof (intro conjI impI)
    assume "ref_count m = 1 \<and> outermost w = Some (ident m) \<and>
      nesting w \<noteq> [] \<and> last (nesting w) = ident m"
    then show "\<exists>m' w'. cleanup_exit m w = Inr (m', w') \<and>
             ref_count m' = 0 \<and> outermost w' = None \<and> stack w' = stack w \<and>
             name_to_dim (heap w' (dicts_at (global_frame w'))) = [] \<and>
             dim_to_name (heap w' (dicts_at (global_frame w'))) =
               filter (\<lambda>p. fst p \<notin> snd ` set (name_to_dim (heap w ?G))) (dim_to_name (heap w ?G)) \<and>
             (mutual_inverses (heap w ?G) \<longrightarrow>
                dim_to_name (heap w' (dicts_at (global_frame w'))) = []) \<and>
             saved_dims m' = saved_dims m @ ?items \<and>
             (\<forall>a. a \<noteq> ?G \<longrightarrow> heap w' a = heap w a)"
      using exit by blast
  next
    assume "ref_count m = 0 \<and> outermost w = None"
    then show "case cleanup_enter m w of
           (m', w') \<Rightarrow>
             ref_count m' = 1 \<and> outermost w' = Some (ident m) \<and> stack w' = stack w \<and>
             saved_dims m' = [] \<and>
             heap w' (dicts_at (global_frame w')) =
               foldl (\<lambda>fr (n, d). StackFrame_write fr n d) (heap w ?G) (saved_dims m) \<and>
             (\<forall>a. a \<noteq> ?G \<longrightarrow> heap w' a = heap w a)"
      using enter by simp
  qed
qed

theorem C4_drain_and_restore_witness:
  "\<exists>m' w'.
     cleanup_exit
       (\<lparr>ident = 7, ref_count = 1, saved_dims = []\<rparr> :: DimStackCleanupMessenger)
       (init_DimStack\<lparr>outermost := Some 7, nesting := [7], heap := (heap init_DimStack)
          (0 := \<lparr>name_to_dim = [(''x'', - 1), (''y'', - 2)],
                 dim_to_name = [(- 1, ''x''), (- 2, ''y'')]\<rparr>)\<rparr>) = Inr (m', w') \<and>
     saved_dims m' = [(''y'', - 2), (''x'', - 1)] \<and> heap w' 0 = empty_dicts \<and>
     (case cleanup_enter m' w' of
        (m'', w'') \<Rightarrow>
          saved_dims m'' = [] \<and>
          heap w'' 0 = \<lparr>name_to_dim = [(''y'', - 2), (''x'', - 1)],
                         dim_to_name = [(- 2, ''y''), (- 1, ''x'')]\<rparr>)"
proof -
  define M :: DimStackCleanupMessenger where "M = \<lparr>ident = 7, ref_count = 1, saved_dims = []\<rparr>"
  define W where "W = init_DimStack\<lparr>outermost := Some 7, nesting := [7], heap := (heap init_DimStack)
          (0 := \<lparr>name_to_dim = [(''x'', - 1), (''y'', - 2)],
                 dim_to_name = [(- 1, ''x''), (- 2, ''y'')]\<rparr>)\<rparr>"
  have ne: "stack W \<noteq> []" by (simp add: W_def init_DimStack_def)
  have own: "ref_count M = 1 \<and> outermost W = Some (ident M) \<and>
      nesting W \<noteq> [] \<and> last (nesting W) = ident M"
    by (simp add: M_def W_def)
  have inv: "mutual_inverses (heap W (dicts_at (global_frame W)))"
    by (simp add: W_def init_DimStack_def global_frame_def mutual_inverses_def)
  have g: "dicts_at (global_frame W) = 0"
    by (simp add: W_def init_DimStack_def global_frame_def)
  from C4_drain_and_restore [OF ne, of M] own inv
  obtain M1 W1 where ex: "cleanup_exit M W = Inr (M1, W1)"
    and r1: "ref_count M1 = 0" "outermost W1 = None" "stack W1 = stack W"
    and n1: "name_to_dim (heap W1 (dicts_at (global_frame W1))) = []"
    and d1: "dim_to_name (heap W1 (dicts_at (global_frame W1))) = []"
    and s1: "saved_dims M1 = saved_dims M @ rev (name_to_dim (heap W (dicts_at (global_frame W))))"
    by blast
  from r1 have ne1: "stack W1 \<noteq> []" using ne by simp
  from r1 g have g1: "dicts_at (global_frame W1) = 0"
    by (simp add: global_frame_def)
  from n1 d1 g1 have h1: "heap W1 0 = empty_dicts"
    by (cases "heap W1 0") (simp add: empty_dicts_def)
  from s1 g have sv: "saved_dims M1 = [(''y'', - 2), (''x'', - 1)]"
    by (simp add: W_def M_def)
  obtain M2 W2 where en: "cleanup_enter M1 W1 = (M2, W2)"
    by (cases "cleanup_enter M1 W1")
  have free: "ref_count M1 = 0 \<and> outermost W1 = None" using r1 by simp
  have g2: "dicts_at (global_frame W2) = 0"
    using C4_drain_and_restore [OF ne1, of M1] free en g1 by (simp add: global_frame_def)
  have s2: "saved_dims M2 = [] \<and>
            heap W2 0 = \<lparr>name_to_dim = [(''y'', - 2), (''x'', - 1)],
                          dim_to_name = [(- 2, ''y''), (- 1, ''x'')]\<rparr>"
    using C4_drain_and_restore [OF ne1, of M1] free en g1 g2 sv h1
    by (simp add: StackFrame_write_def empty_dicts_def)
  from ex en sv h1 s2 show ?thesis
    unfolding M_def W_def by simp
qed

text \<open>
  C5: when a request misses and a fresh binding \<open>(n', d')\<close> is synthesized, the store
  changes exactly at the dictionaries of the write frames, where the pair is written:
  the global frame alone for GLOBAL and VISIBLE, the current frame for LOCAL together
  with every parent of the current frame when its \<open>keep\<close> flag is set. The stack is
  unchanged. For a LOCAL request, a parent frame (with dictionaries of its own) is
  modified if and only if the current frame's \<open>keep\<close> flag is set.
\<close>

theorem C5_write_set:
  assumes req: "unpack name dim = Some (n, d, dim_type)"
    and ne: "stack w \<noteq> []"
    and miss: "snd (snd (read_loop w (read_frames w dim_type) n d)) = False"
    and ok: "request w name dim = Inr ((Some n', Some d'), w')"
  shows
    "stack w' = stack w \<and>
     (\<forall>a. heap w' a =
        (if a \<in> dicts_at ` set (if dim_type = GLOBAL \<or> dim_type = VISIBLE then [global_frame w]
                                 else current_frame w #
                                      (if keep (current_frame w) then parents (current_frame w) else []))
         then StackFrame_write (heap w a) n' d' else heap w a)) \<and>
     (dim_type = LOCAL \<longrightarrow>
        (\<forall>p \<in> set (parents (current_frame w)).
           dicts_at p \<noteq> dicts_at (current_frame w) \<longrightarrow>
             (heap w' (dicts_at p) \<noteq> heap w (dicts_at p)) = keep (current_frame w)))"
proof -
  from request_miss [OF req ne miss] ok
  have g: "gendim w (NameRequest n dim_type) (DimRequest d dim_type) = Inr (n', d')"
    and w': "w' = write_loop w (write_frames w dim_type) n' d'"
    by (cases "gendim w (NameRequest n dim_type) (DimRequest d dim_type)"; simp split: prod.splits)+
  have wf: "write_frames w dim_type =
      (if dim_type = GLOBAL \<or> dim_type = VISIBLE then [global_frame w]
       else current_frame w # (if keep (current_frame w) then parents (current_frame w) else []))"
    by (cases dim_type) (simp_all add: write_frames_def)
  have heap: "heap w' a =
        (if a \<in> dicts_at ` set (if dim_type = GLOBAL \<or> dim_type = VISIBLE then [global_frame w]
                                 else current_frame w #
                                      (if keep (current_frame w) then parents (current_frame w) else []))
         then StackFrame_write (heap w a) n' d' else heap w a)" for a
    by (simp only: w' write_loop_heap wf)
  have par: "(heap w' (dicts_at p) \<noteq> heap w (dicts_at p)) = keep (current_frame w)"
    if l: "dim_type = LOCAL" and p: "p \<in> set (parents (current_frame w))"
      and dp: "dicts_at p \<noteq> dicts_at (current_frame w)" for p
  proof (cases "keep (current_frame w)")
    case True
    from gendim_ok [OF g] p have "d' \<notin> fst ` set (dim_to_name (heap w (dicts_at p)))"
      by (auto simp: collides_def conflict_frames_def list_ex_iff)
    then have "StackFrame_write (heap w (dicts_at p)) n' d' \<noteq> heap w (dicts_at p)"
      by (rule write_changes)
    with True l p show ?thesis by (simp add: heap)
  next
    case False
    with l dp show ?thesis by (simp add: heap)
  qed
  from heap par w' show ?thesis by simp
qed

theorem C5_write_set_witness:
  "\<exists>w'. request
       (init_DimStack\<lparr>stack := [StackFrame 0 [] [] False,
                                StackFrame 1 [StackFrame 0 [] [] False] [] True],
                      next_addr := 2\<rparr>)
       (Name (Some ''x'')) (DimReq (DimRequest None LOCAL)) = Inr ((Some ''x'', Some (- 1)), w') \<and>
     heap w' 0 = \<lparr>name_to_dim = [(''x'', - 1)], dim_to_name = [(- 1, ''x'')]\<rparr> \<and>
     heap w' 1 = \<lparr>name_to_dim = [(''x'', - 1)], dim_to_name = [(- 1, ''x'')]\<rparr> \<and>
     heap w' 2 = empty_dicts"
proof -
  define W where "W = init_DimStack\<lparr>stack := [StackFrame 0 [] [] False,
                                StackFrame 1 [StackFrame 0 [] [] False] [] True],
                      next_addr := 2\<rparr>"
  define W' where "W' = write_loop W (write_frames W LOCAL) ''x'' (- 1)"
  have h1: "unpack (Name (Some ''x'')) (DimReq (DimRequest None LOCAL)) = Some (Some ''x'', None, LOCAL)"
    by simp
  have h2: "stack W \<noteq> []" by (simp add: W_def)
  have h3: "snd (snd (read_loop W (read_frames W LOCAL) (Some ''x'') None)) = False"
    by (simp add: W_def eval_defs)
  have h4: "request W (Name (Some ''x'')) (DimReq (DimRequest None LOCAL))
      = Inr ((Some ''x'', Some (- 1)), W')"
    by (simp add: W_def W'_def eval_defs gendim_loop.simps)
  have cur: "current_frame W = StackFrame 1 [StackFrame 0 [] [] False] [] True"
    by (simp add: W_def current_frame_def)
  have hp: "heap W a = empty_dicts" for a
    by (simp add: W_def init_DimStack_def)
  from C5_write_set [OF h1 h2 h3 h4]
  have "heap W' 0 = \<lparr>name_to_dim = [(''x'', - 1)], dim_to_name = [(- 1, ''x'')]\<rparr> \<and>
     heap W' 1 = \<lparr>name_to_dim = [(''x'', - 1)], dim_to_name = [(- 1, ''x'')]\<rparr> \<and>
     heap W' 2 = empty_dicts"
    by (simp add: cur hp StackFrame_write_def empty_dicts_def)
  with h4 show ?thesis
    unfolding W_def by blast
qed

text \<open>
  C8 (as stated): a re-entrant enter of a scope controller that is already entered
  leaves the frame stack unchanged. \<open>LocalNamedMessenger.__enter__\<close> does not look at
  \<open>_ref_count\<close>: entered on the fresh allocator the messenger has \<open>_ref_count\<close> 1 and the
  stack two frames, and entered again it pushes a third frame.
\<close>

theorem C8_reentrant_enter_pushes:
  "ref_count (fst (local_enter
      \<lparr>ident = 1, ref_count = 0, saved_dims = [], history = 1, m_keep = False,
        saved_frames = [], m_iter_parents = []\<rparr> init_DimStack)) = 1 \<and>
   length (stack (snd (local_enter
      \<lparr>ident = 1, ref_count = 0, saved_dims = [], history = 1, m_keep = False,
        saved_frames = [], m_iter_parents = []\<rparr> init_DimStack))) = 2 \<and>
   length (stack (snd (local_enter
      (fst (local_enter
        \<lparr>ident = 1, ref_count = 0, saved_dims = [], history = 1, m_keep = False,
          saved_frames = [], m_iter_parents = []\<rparr> init_DimStack))
      (snd (local_enter
        \<lparr>ident = 1, ref_count = 0, saved_dims = [], history = 1, m_keep = False,
          saved_frames = [], m_iter_parents = []\<rparr> init_DimStack))))) = 3"
  by (simp add: local_enter_stack local_enter_ref_count init_DimStack_def)

text \<open>
  C8 (amended): every enter of a scope controller, the first as well as a re-entrant
  one, pushes exactly one frame on top of the stack and increments \<open>_ref_count\<close>. Every
  exit pops the top frame, whatever \<open>_ref_count\<close> is, and its base class decrements
  \<open>_ref_count\<close>: the exit returns, with the top frame gone, when the stack holds more than
  the global frame and the exit is either re-entrant (\<open>_ref_count\<close> not 1) or the
  controller is on top of the nesting; the last exit (\<open>_ref_count\<close> 1) of a controller
  that is not on top of the nesting fails, and an exit with only the global frame on the
  stack fails its assertion.
\<close>

theorem C8_enter_pushes_exit_pops:
  "(\<exists>f. stack (snd (local_enter m w)) = stack w @ [f]) \<and>
   ref_count (fst (local_enter m w)) = ref_count m + 1 \<and>
   (1 < length (stack w) \<and>
    (ref_count m \<noteq> 1 \<or> (nesting w \<noteq> [] \<and> last (nesting w) = ident m)) \<longrightarrow>
      (\<exists>m' w'. local_exit m w = Inr (m', w') \<and> stack w' = butlast (stack w) \<and>
               ref_count m' = ref_count m - 1)) \<and>
   (1 < length (stack w) \<and> ref_count m = 1 \<and>
    \<not> (nesting w \<noteq> [] \<and> last (nesting w) = ident m) \<longrightarrow>
      local_exit m w = Inl UnbalancedExit) \<and>
   (length (stack w) \<le> 1 \<longrightarrow> local_exit m w = Inl AssertionError)"
proof (intro conjI impI)
  show "\<exists>f. stack (snd (local_enter m w)) = stack w @ [f]"
    by (simp add: local_enter_stack)
  show "ref_count (fst (local_enter m w)) = ref_count m + 1"
    by (rule local_enter_ref_count)
next
  assume a: "1 < length (stack w) \<and>
    (ref_count m \<noteq> 1 \<or> (nesting w \<noteq> [] \<and> last (nesting w) = ident m))"
  let ?m1 = "if m_keep m
             then m\<lparr>saved_frames := saved_frames m @ [StackFrame (dicts_at (last (stack w))) [] [] (m_keep m)]\<rparr>
             else m"
  let ?w1 = "w\<lparr>stack := butlast (stack w)\<rparr>"
  have e: "local_exit m w = cleanup_exit ?m1 ?w1"
    using a by (simp add: local_exit_def pop_def)
  from a obtain m' w' where r: "local_exit m w = Inr (m', w')"
    using local_exit_returns [of w m] by blast
  with e have c: "cleanup_exit ?m1 ?w1 = Inr (m', w')" by simp
  have "stack w' = butlast (stack w)"
    using cleanup_exit_Inr(2) [OF c] by simp
  moreover have "ref_count m' = ref_count m - 1"
    using cleanup_exit_Inr(1) [OF c] by simp
  ultimately show "\<exists>m' w'. local_exit m w = Inr (m', w') \<and> stack w' = butlast (stack w) \<and>
               ref_count m' = ref_count m - 1"
    using r by blast
next
  assume a: "1 < length (stack w) \<and> ref_count m = 1 \<and>
    \<not> (nesting w \<noteq> [] \<and> last (nesting w) = ident m)"
  let ?m1 = "if m_keep m
             then m\<lparr>saved_frames := saved_frames m @ [StackFrame (dicts_at (last (stack w))) [] [] (m_keep m)]\<rparr>
             else m"
  let ?w1 = "w\<lparr>stack := butlast (stack w)\<rparr>"
  have e: "local_exit m w = cleanup_exit ?m1 ?w1"
    using a by (simp add: local_exit_def pop_def)
  have "cleanup_exit ?m1 ?w1 = Inl UnbalancedExit"
    using a by (intro cleanup_exit_fails) simp_all
  with e show "local_exit m w = Inl UnbalancedExit" by simp
next
  assume "length (stack w) \<le> 1"
  then show "local_exit m w = Inl AssertionError"
    by (simp add: local_exit_def pop_def)
qed

theorem C8_enter_pushes_exit_pops_witness:
  "(\<exists>m' w'. local_exit
       \<lparr>ident = 1, ref_count = 2, saved_dims = [], history = 1, m_keep = False,
         saved_frames = [], m_iter_parents = []\<rparr>
       (init_DimStack\<lparr>stack := [StackFrame 0 [] [] False, StackFrame 1 [] [] False,
                                 StackFrame 2 [] [] False], nesting := [1]\<rparr>) = Inr (m', w') \<and>
      stack w' = [StackFrame 0 [] [] False, StackFrame 1 [] [] False] \<and> ref_count m' = 1) \<and>
   (\<exists>m' w'. local_exit
       \<lparr>ident = 1, ref_count = 1, saved_dims = [], history = 1, m_keep = False,
         saved_frames = [], m_iter_parents = []\<rparr>
       (init_DimStack\<lparr>stack := [StackFrame 0 [] [] False, StackFrame 1 [] [] False],
                      nesting := [1]\<rparr>) = Inr (m', w') \<and>
      stack w' = [StackFrame 0 [] [] False] \<and> ref_count m' = 0) \<and>
   local_exit
       \<lparr>ident = 1, ref_count = 1, saved_dims = [], history = 1, m_keep = False,
         saved_frames = [], m_iter_parents = []\<rparr>
       (init_DimStack\<lparr>stack := [StackFrame 0 [] [] False, StackFrame 1 [] [] False,
                                 StackFrame 2 [] [] False], nesting := [1, 2]\<rparr>)
     = Inl UnbalancedExit \<and>
   local_exit
       \<lparr>ident = 1, ref_count = 1, saved_dims = [], history = 1, m_keep = False,
         saved_frames = [], m_iter_parents = []\<rparr> init_DimStack = Inl AssertionError"
proof -
  define M2 :: LocalNamedMessenger where
    "M2 = \<lparr>ident = 1, ref_count = 2, saved_dims = [], history = 1, m_keep = False,
         saved_frames = [], m_iter_parents = []\<rparr>"
  define M1 :: LocalNamedMessenger where
    "M1 = \<lparr>ident = 1, ref_count = 1, saved_dims = [], history = 1, m_keep = False,
         saved_frames = [], m_iter_parents = []\<rparr>"
  define W3 where "W3 = init_DimStack\<lparr>stack := [StackFrame 0 [] [] False, StackFrame 1 [] [] False,
                                 StackFrame 2 [] [] False], nesting := [1]\<rparr>"
  define W2 where "W2 = init_DimStack\<lparr>stack := [StackFrame 0 [] [] False, StackFrame 1 [] [] False],
                      nesting := [1]\<rparr>"
  define V3 where "V3 = init_DimStack\<lparr>stack := [StackFrame 0 [] [] False, StackFrame 1 [] [] False,
                                 StackFrame 2 [] [] False], nesting := [1, 2]\<rparr>"
  have a: "\<exists>m' w'. local_exit M2 W3 = Inr (m', w') \<and>
      stack w' = [StackFrame 0 [] [] False, StackFrame 1 [] [] False] \<and> ref_count m' = 1"
    using C8_enter_pushes_exit_pops [of M2 W3] by (simp add: W3_def M2_def)
  have b: "\<exists>m' w'. local_exit M1 W2 = Inr (m', w') \<and>
      stack w' = [StackFrame 0 [] [] False] \<and> ref_count m' = 0"
    using C8_enter_pushes_exit_pops [of M1 W2] by (simp add: W2_def M1_def)
  have c: "local_exit M1 V3 = Inl UnbalancedExit"
    using C8_enter_pushes_exit_pops [of M1 V3] by (simp add: V3_def M1_def)
  have d: "local_exit M1 init_DimStack = Inl AssertionError"
    using C8_enter_pushes_exit_pops [of M1 init_DimStack] by (simp add: init_DimStack_def)
  from a b c d show ?thesis
    unfolding M1_def M2_def W2_def W3_def V3_def by simp
qed

text \<open>
  C9: \<open>_get_iter_parents\<close> returns, as a set, the frames reachable from the given frame
  through \<open>iter_parents\<close> in any number of steps (the frame itself included);
  \<open>__iter__\<close> records this list for the then-current frame once, and every frame pushed
  by a step of the iteration carries that same list as its \<open>iter_parents\<close>.
\<close>

theorem C9_iter_parents_closure:
  "set (get_iter_parents frame) = {g. (frame, g) \<in> {(f, g). g \<in> set (iter_parents f)}\<^sup>*} \<and>
   m_iter_parents (iter_begin m w) = get_iter_parents (current_frame w) \<and>
   length (iter_frames body (iter_begin m w) w vs) = length vs \<and>
   (\<forall>f \<in> set (iter_frames body (iter_begin m w) w vs).
      iter_parents f = get_iter_parents (current_frame w))"
proof -
  let ?R = "{(f, g). g \<in> set (iter_parents f)}"
  have "set (get_iter_parents frame) = {frame} \<union> ?R\<^sup>+ `` {frame}"
    by (simp add: get_iter_parents_def iter_parents_loop_set)
  also have "\<dots> = {g. (frame, g) \<in> ?R\<^sup>*}"
    by (auto simp: rtrancl_eq_or_trancl)
  finally have a: "set (get_iter_parents frame) = {g. (frame, g) \<in> ?R\<^sup>*}" .
  have b: "m_iter_parents (iter_begin m w) = get_iter_parents (current_frame w)"
    by (simp add: iter_begin_def)
  have c: "\<forall>f \<in> set (iter_frames body (iter_begin m w) w vs).
      iter_parents f = get_iter_parents (current_frame w)"
    using iter_frames_iter_parents [of _ body "iter_begin m w" w vs] b by simp
  from a b c show ?thesis
    by (simp add: iter_frames_length)
qed

theorem C9_iter_parents_closure_witness:
  "get_iter_parents (StackFrame 3 [] [StackFrame 2 [] [StackFrame 1 [] [] False] False] False)
     = [StackFrame 3 [] [StackFrame 2 [] [StackFrame 1 [] [] False] False] False,
        StackFrame 2 [] [StackFrame 1 [] [] False] False,
        StackFrame 1 [] [] False] \<and>
   map iter_parents
     (iter_frames (\<lambda>v w. w)
        (iter_begin
           \<lparr>ident = 1, ref_count = 0, saved_dims = [], history = 1, m_keep = False,
             saved_frames = [], m_iter_parents = []\<rparr>
           (init_DimStack\<lparr>stack := [StackFrame 0 [] [] False,
              StackFrame 3 [] [StackFrame 2 [] [StackFrame 1 [] [] False] False] False]\<rparr>))
        (init_DimStack\<lparr>stack := [StackFrame 0 [] [] False,
              StackFrame 3 [] [StackFrame 2 [] [StackFrame 1 [] [] False] False] False]\<rparr>)
        [10 :: nat, 20])
     = [[StackFrame 3 [] [StackFrame 2 [] [StackFrame 1 [] [] False] False] False,
         StackFrame 2 [] [StackFrame 1 [] [] False] False,
         StackFrame 1 [] [] False],
        [StackFrame 3 [] [StackFrame 2 [] [StackFrame 1 [] [] False] False] False,
         StackFrame 2 [] [StackFrame 1 [] [] False] False,
         StackFrame 1 [] [] False]]"
proof -
  define C where "C = StackFrame 3 [] [StackFrame 2 [] [StackFrame 1 [] [] False] False] False"
  define M :: LocalNamedMessenger where
    "M = \<lparr>ident = 1, ref_count = 0, saved_dims = [], history = 1, m_keep = False,
             saved_frames = [], m_iter_parents = []\<rparr>"
  define W where "W = init_DimStack\<lparr>stack := [StackFrame 0 [] [] False, C]\<rparr>"
  define fs where "fs = iter_frames (\<lambda>v w. w) (iter_begin M W) W [10 :: nat, 20]"
  have g: "get_iter_parents C = [C, StackFrame 2 [] [StackFrame 1 [] [] False] False,
        StackFrame 1 [] [] False]"
    by (simp add: C_def get_iter_parents_def iter_parents_loop.simps)
  have cur: "current_frame W = C"
    by (simp add: W_def current_frame_def)
  from C9_iter_parents_closure [of C M W "\<lambda>v w. w" "[10, 20]"]
  have len: "length fs = 2" and all: "\<forall>f \<in> set fs. iter_parents f = get_iter_parents C"
    by (simp_all add: fs_def cur)
  from len obtain a b where ab: "fs = [a, b]"
    by (auto simp: length_Suc_conv numeral_2_eq_2)
  with all have "map iter_parents fs = [get_iter_parents C, get_iter_parents C]"
    by simp
  with g show ?thesis
    unfolding fs_def W_def M_def C_def by simp
qed

text \<open>
  C6: a \<open>keep=True\<close> messenger is entered (its frame has dictionaries of its own, not
  those of the global frame), a LOCAL request for the name \<open>x\<close> misses and allocates
  \<open>(x, d)\<close> (the claim's \<open>d\<close> is \<open>-1\<close>), and the messenger is exited. On its next entry
  the pushed frame has the same dictionaries, reading \<open>x\<close> in that frame hits with
  slot \<open>d\<close>, and the request for \<open>x\<close> returns \<open>(x, d)\<close> leaving the allocator as it
  was: nothing is synthesized or written.
\<close>

theorem C6_keep_replay:
  assumes keep: "m_keep m"
    and ne: "stack w0 \<noteq> []"
    and enter1: "local_enter m w0 = (m1, w1)"
    and own: "dicts_at (current_frame w1) \<noteq> dicts_at (global_frame w1)"
    and miss: "snd (snd (read_loop w1 (read_frames w1 LOCAL) (Some x) None)) = False"
    and alloc: "request w1 (Name (Some x)) (DimReq (DimRequest None LOCAL))
                  = Inr ((Some x, Some d), w2)"
    and exit1: "local_exit m1 w2 = Inr (m3, w3)"
    and enter2: "local_enter m3 w3 = (m4, w4)"
  shows "dicts_at (current_frame w4) = dicts_at (current_frame w1) \<and>
         frame_read w4 (current_frame w4) (Some x) None = (Some x, Some d, True) \<and>
         request w4 (Name (Some x)) (DimReq (DimRequest None LOCAL)) = Inr ((Some x, Some d), w4)"
proof -
  define a where "a = dicts_at (current_frame w1)"
  have u: "unpack (Name (Some x)) (DimReq (DimRequest None LOCAL)) = Some (Some x, None, LOCAL)"
    by simp
  \<comment> \<open>first entry\<close>
  from enter1 have st1: "stack w1 = stack w0 @ [current_frame w1]"
    using local_enter_stack [of m w0] by (simp add: current_frame_def)
  then have ne1: "stack w1 \<noteq> []" by simp
  from st1 ne have g1: "global_frame w1 = global_frame w0"
    by (simp add: global_frame_def)
  from enter1 have k1: "m_keep m1"
    using local_enter_fields [of m w0] keep by simp
  \<comment> \<open>the allocation\<close>
  from request_miss [OF u ne1 miss] alloc
  have w2: "w2 = write_loop w1 (write_frames w1 LOCAL) x d"
    by (cases "gendim w1 (NameRequest (Some x) LOCAL) (DimRequest None LOCAL)"; simp split: prod.splits)
  have "a \<in> dicts_at ` set (write_frames w1 LOCAL)"
    by (simp add: write_frames_def a_def)
  then have h2: "heap w2 a = StackFrame_write (heap w1 a) x d"
    by (simp add: w2 write_loop_heap)
  have st2: "stack w2 = stack w1" by (simp add: w2)
  have bound2: "map_of (name_to_dim (heap w2 a)) x = Some d"
    by (simp add: h2 StackFrame_write_def update_conv')
  \<comment> \<open>the exit\<close>
  let ?m2 = "m1\<lparr>saved_frames := saved_frames m1 @ [StackFrame a [] [] True]\<rparr>"
  let ?w2 = "w2\<lparr>stack := stack w0\<rparr>"
  from st1 st2 ne have len: "1 < length (stack w2)"
    by (cases "stack w0") simp_all
  have last2: "last (stack w2) = current_frame w1" "butlast (stack w2) = stack w0"
    using st1 st2 by simp_all
  from exit1 len k1 have ex: "cleanup_exit ?m2 ?w2 = Inr (m3, w3)"
    by (simp add: local_exit_def pop_def last2 a_def)
  have gf2: "global_frame ?w2 = global_frame w0"
    by (simp add: global_frame_def)
  from own have ag: "a \<noteq> dicts_at (global_frame w0)"
    by (simp add: a_def g1)
  have m3: "m_keep m3" "saved_frames m3 = saved_frames m1 @ [StackFrame a [] [] True]"
    using cleanup_exit_Inr(1) [OF ex] k1 by simp_all
  have st3: "stack w3 = stack w0"
    using cleanup_exit_Inr(2) [OF ex] by simp
  have h3: "heap w3 a = heap w2 a"
    using cleanup_exit_Inr(3) [OF ex] cleanup_exit_drain_heap [of a ?w2 ?m2] ag gf2 by simp
  \<comment> \<open>the second entry replays the saved dictionaries\<close>
  from m3 have lastsaved: "dicts_at (last (saved_frames m3)) = a" "saved_frames m3 \<noteq> []"
    by simp_all
  from enter2 have st4: "stack w4 = stack w3 @ [current_frame w4]"
    using local_enter_stack [of m3 w3] by (simp add: current_frame_def)
  from enter2 have cur4: "dicts_at (current_frame w4) = a"
    using local_enter_stack [of m3 w3] m3 by (simp add: current_frame_def)
  have g3: "global_frame w3 = global_frame w0"
    by (simp add: global_frame_def st3)
  from enter2 have h4: "heap w4 a = heap w3 a"
    using local_enter_heap_replay [of m3 w3] m3 lastsaved st3 ne ag g3 by simp
  from bound2 h3 h4 cur4 have bound4: "map_of (name_to_dim (heap w4 (dicts_at (current_frame w4)))) x = Some d"
    by simp
  have rd: "frame_read w4 (current_frame w4) (Some x) None = (Some x, Some d, True)"
    using bound4 by (rule frame_read_hit)
  from st4 have ne4: "stack w4 \<noteq> []" by simp
  have "read_loop w4 (read_frames w4 LOCAL) (Some x) None = (Some x, Some d, True)"
    by (simp add: read_frames_def rd)
  with ne4 have "request w4 (Name (Some x)) (DimReq (DimRequest None LOCAL)) = Inr ((Some x, Some d), w4)"
    by (simp add: request_def)
  with rd cur4 show ?thesis by (simp add: a_def)
qed

theorem C6_keep_replay_witness:
  "\<exists>m1 w1 w2 m3 w3 m4 w4.
     local_enter \<lparr>ident = 1, ref_count = 0, saved_dims = [], history = 1, m_keep = True,
                   saved_frames = [], m_iter_parents = []\<rparr> init_DimStack = (m1, w1) \<and>
     request w1 (Name (Some ''x'')) (DimReq (DimRequest None LOCAL)) = Inr ((Some ''x'', Some (- 1)), w2) \<and>
     local_exit m1 w2 = Inr (m3, w3) \<and>
     local_enter m3 w3 = (m4, w4) \<and>
     request w4 (Name (Some ''x'')) (DimReq (DimRequest None LOCAL)) = Inr ((Some ''x'', Some (- 1)), w4)"
proof -
  define M :: LocalNamedMessenger where
    "M = \<lparr>ident = 1, ref_count = 0, saved_dims = [], history = 1, m_keep = True,
          saved_frames = [], m_iter_parents = []\<rparr>"
  obtain m1 w1 where e1: "local_enter M init_DimStack = (m1, w1)"
    by (cases "local_enter M init_DimStack")
  then have w1: "w1 = snd (local_enter M init_DimStack)" by simp
  have k: "m_keep M" by (simp add: M_def)
  have ne: "stack init_DimStack \<noteq> []" by (simp add: init_DimStack_def)
  have st1: "stack w1 = [StackFrame 0 [] [] False, StackFrame 1 [StackFrame 0 [] [] False] [] True]"
    by (simp add: w1 local_enter_stack M_def init_DimStack_def py_slice_from_def)
  have hp1: "heap w1 a = empty_dicts" for a
    unfolding w1
    by (simp add: local_enter_def cleanup_enter_def push_def ReentrantMessenger_enter_def
        M_def init_DimStack_def)
  have fd1: "first_available_dim w1 = Some (- 1)"
    unfolding w1
    by (simp add: local_enter_def cleanup_enter_def push_def ReentrantMessenger_enter_def
        M_def init_DimStack_def)
  have own: "dicts_at (current_frame w1) \<noteq> dicts_at (global_frame w1)"
    by (simp add: current_frame_def global_frame_def st1)
  have miss: "snd (snd (read_loop w1 (read_frames w1 LOCAL) (Some ''x'') None)) = False"
    by (simp add: read_frames_def current_frame_def global_frame_def st1 frame_read_def
        StackFrame_read_def hp1 empty_dicts_def)
  have "\<exists>w2. request w1 (Name (Some ''x'')) (DimReq (DimRequest None LOCAL))
      = Inr ((Some ''x'', Some (- 1)), w2)"
    by (simp add: request_def read_frames_def current_frame_def global_frame_def st1 frame_read_def
        StackFrame_read_def hp1 empty_dicts_def gendim_def conflict_frames_def collides_def fd1
        gendim_loop.simps MAX_DIM_def)
  then obtain w2 where alloc: "request w1 (Name (Some ''x'')) (DimReq (DimRequest None LOCAL))
      = Inr ((Some ''x'', Some (- 1)), w2)" ..
  from request_stack [OF alloc] st1 have len: "1 < length (stack w2)" by simp
  from e1 have m1: "m1 = fst (local_enter M init_DimStack)" by simp
  have top: "ref_count m1 \<noteq> 1 \<or> (nesting w2 \<noteq> [] \<and> last (nesting w2) = ident m1)"
    unfolding request_nesting [OF alloc] m1 w1
    by (simp add: local_enter_def cleanup_enter_def push_def ReentrantMessenger_enter_def
        M_def init_DimStack_def)
  from local_exit_returns [OF len top] obtain m3 w3 where exit1: "local_exit m1 w2 = Inr (m3, w3)"
    by blast
  obtain m4 w4 where enter2: "local_enter m3 w3 = (m4, w4)"
    by (cases "local_enter m3 w3")
  from C6_keep_replay [OF k ne e1 own miss alloc exit1 enter2]
  have "request w4 (Name (Some ''x'')) (DimReq (DimRequest None LOCAL))
      = Inr ((Some ''x'', Some (- 1)), w4)"
    by simp
  with e1 alloc exit1 enter2 show ?thesis
    unfolding M_def by blast
qed

text \<open>
  C7 (as stated): the two dictionaries of a frame stay mutual inverses after every
  sequence of writes, frees and requests. \<open>StackFrame.write\<close> checks nothing: writing
  \<open>(a, -1)\<close> and then \<open>(b, -1)\<close> into an empty frame leaves both names bound to slot
  \<open>-1\<close>. A request can do the same: in a frame where the name \<open>"_pyro_dim_1"\<close> is bound
  to slot \<open>-2\<close>, the nameless request for slot \<open>-1\<close> synthesizes that name again and
  leaves slot \<open>-2\<close> bound to a name that now maps to \<open>-1\<close>.
\<close>

theorem C7_unchecked_write_breaks_inverses:
  "\<not> mutual_inverses (StackFrame_write (StackFrame_write empty_dicts ''a'' (- 1)) ''b'' (- 1)) \<and>
   map_of (name_to_dim (StackFrame_write (StackFrame_write empty_dicts ''a'' (- 1)) ''b'' (- 1))) ''a''
     = Some (- 1) \<and>
   map_of (name_to_dim (StackFrame_write (StackFrame_write empty_dicts ''a'' (- 1)) ''b'' (- 1))) ''b''
     = Some (- 1) \<and>
   mutual_inverses (heap (init_DimStack\<lparr>heap := (heap init_DimStack)
       (0 := \<lparr>name_to_dim = [(''_pyro_dim_1'', - 2)], dim_to_name = [(- 2, ''_pyro_dim_1'')]\<rparr>)\<rparr>) 0) \<and>
   request (init_DimStack\<lparr>heap := (heap init_DimStack)
       (0 := \<lparr>name_to_dim = [(''_pyro_dim_1'', - 2)], dim_to_name = [(- 2, ''_pyro_dim_1'')]\<rparr>)\<rparr>)
       (NameReq (NameRequest None LOCAL)) (Dim (Some (- 1)))
     = Inr ((Some ''_pyro_dim_1'', Some (- 1)),
            init_DimStack\<lparr>heap := (heap init_DimStack)
              (0 := \<lparr>name_to_dim = [(''_pyro_dim_1'', - 1)],
                     dim_to_name = [(- 2, ''_pyro_dim_1''), (- 1, ''_pyro_dim_1'')]\<rparr>)\<rparr>) \<and>
   \<not> mutual_inverses \<lparr>name_to_dim = [(''_pyro_dim_1'', - 1)],
                       dim_to_name = [(- 2, ''_pyro_dim_1''), (- 1, ''_pyro_dim_1'')]\<rparr>"
  by (simp add: eval_defs mutual_inverses_def)

text \<open>
  C7 (amended): an empty frame has mutually inverse dictionaries, and they stay mutual
  inverses after a \<open>write\<close> of a pair whose name and slot are both unbound in the frame
  (or already bound to each other), after a \<open>free\<close> of a pair bound in the frame (or
  with both sides unbound), and, at every address of the store, after every successful
  \<open>request\<close> that supplies a name or whose synthesized name is unbound in each write
  frame. Mutual inverses bind no two names to one slot and no two slots to one name.
  After such a request no two distinct names are bound to the same slot across the
  conflict frames, if this held before and the conflict frames had mutually inverse
  dictionaries.
\<close>

theorem C7_inverses_maintained:
  "mutual_inverses empty_dicts \<and>
   (mutual_inverses fr \<and>
      (n \<notin> fst ` set (name_to_dim fr) \<and> d \<notin> fst ` set (dim_to_name fr) \<or>
       (n, d) \<in> set (name_to_dim fr) \<and> (d, n) \<in> set (dim_to_name fr)) \<longrightarrow>
      mutual_inverses (StackFrame_write fr n d)) \<and>
   (mutual_inverses fr \<and>
      (n \<notin> fst ` set (name_to_dim fr) \<and> d \<notin> fst ` set (dim_to_name fr) \<or>
       (n, d) \<in> set (name_to_dim fr)) \<longrightarrow>
      mutual_inverses (StackFrame_free fr n d)) \<and>
   (mutual_inverses fr \<longrightarrow>
      (\<forall>p \<in> set (name_to_dim fr). \<forall>q \<in> set (name_to_dim fr). snd p = snd q \<longrightarrow> p = q) \<and>
      (\<forall>p \<in> set (dim_to_name fr). \<forall>q \<in> set (dim_to_name fr). snd p = snd q \<longrightarrow> p = q)) \<and>
   (unpack name dim = Some (rn, rd, t) \<and>
    request w name dim = Inr ((Some n', Some d'), w') \<and>
    (rn = None \<and> snd (snd (read_loop w (read_frames w t) rn rd)) = False \<longrightarrow>
       (\<forall>f \<in> set (write_frames w t). n' \<notin> fst ` set (name_to_dim (heap w (dicts_at f))))) \<longrightarrow>
      (\<forall>a. mutual_inverses (heap w a) \<longrightarrow> mutual_inverses (heap w' a)) \<and>
      ((\<forall>f \<in> set (conflict_frames w). mutual_inverses (heap w (dicts_at f))) \<and>
       slots_unique w (conflict_frames w) \<longrightarrow>
         slots_unique w' (conflict_frames w')))"
proof (intro conjI impI)
  show "mutual_inverses empty_dicts"
    by (simp add: mutual_inverses_def empty_dicts_def)
next
  assume a: "mutual_inverses fr \<and>
      (n \<notin> fst ` set (name_to_dim fr) \<and> d \<notin> fst ` set (dim_to_name fr) \<or>
       (n, d) \<in> set (name_to_dim fr) \<and> (d, n) \<in> set (dim_to_name fr))"
  then have inv: "mutual_inverses fr" by simp
  from a show "mutual_inverses (StackFrame_write fr n d)"
    using write_preserves_absent [OF inv, of n d] write_bound_same [OF inv, of n d] inv
    by auto
next
  assume a: "mutual_inverses fr \<and>
      (n \<notin> fst ` set (name_to_dim fr) \<and> d \<notin> fst ` set (dim_to_name fr) \<or>
       (n, d) \<in> set (name_to_dim fr))"
  then show "mutual_inverses (StackFrame_free fr n d)"
    using free_preserves [of fr n d] by blast
next
  assume "mutual_inverses fr"
  from inverses_injective [OF this]
  show "\<forall>p \<in> set (name_to_dim fr). \<forall>q \<in> set (name_to_dim fr). snd p = snd q \<longrightarrow> p = q"
    by (rule conjunct1)
next
  assume "mutual_inverses fr"
  from inverses_injective [OF this]
  show "\<forall>p \<in> set (dim_to_name fr). \<forall>q \<in> set (dim_to_name fr). snd p = snd q \<longrightarrow> p = q"
    by (rule conjunct2)
next
  assume a: "unpack name dim = Some (rn, rd, t) \<and>
    request w name dim = Inr ((Some n', Some d'), w') \<and>
    (rn = None \<and> snd (snd (read_loop w (read_frames w t) rn rd)) = False \<longrightarrow>
       (\<forall>f \<in> set (write_frames w t). n' \<notin> fst ` set (name_to_dim (heap w (dicts_at f)))))"
  then have u: "unpack name dim = Some (rn, rd, t)"
    and r: "request w name dim = Inr ((Some n', Some d'), w')"
    and fresh: "rn = None \<and> snd (snd (read_loop w (read_frames w t) rn rd)) = False \<longrightarrow>
       (\<forall>f \<in> set (write_frames w t). n' \<notin> fst ` set (name_to_dim (heap w (dicts_at f))))"
    by blast+
  have miss_case: "\<forall>f \<in> set (write_frames w t). n' \<notin> fst ` set (name_to_dim (heap w (dicts_at f)))"
    if miss: "snd (snd (read_loop w (read_frames w t) rn rd)) = False"
      and g: "gendim w (NameRequest rn t) (DimRequest rd t) = Inr (n', d')"
  proof (cases rn)
    case None
    with fresh miss show ?thesis by simp
  next
    case (Some x)
    with g have "n' = x" by (simp add: gendim_name)
    with Some miss miss_name_absent [of w t x rd] write_sub_read [of w t] show ?thesis
      by blast
  qed
  show "\<forall>a. mutual_inverses (heap w a) \<longrightarrow> mutual_inverses (heap w' a)"
  proof (intro allI impI)
    fix a
    assume inv: "mutual_inverses (heap w a)"
    from request_cases [OF u r] show "mutual_inverses (heap w' a)"
    proof
      assume "w' = w"
      with inv show ?thesis by simp
    next
      assume m: "snd (snd (read_loop w (read_frames w t) rn rd)) = False \<and>
        gendim w (NameRequest rn t) (DimRequest rd t) = Inr (n', d') \<and>
        w' = write_loop w (write_frames w t) n' d'"
      then have g: "gendim w (NameRequest rn t) (DimRequest rd t) = Inr (n', d')"
        and w': "w' = write_loop w (write_frames w t) n' d'" by simp_all
      from m have na: "\<forall>f \<in> set (write_frames w t). n' \<notin> fst ` set (name_to_dim (heap w (dicts_at f)))"
        using miss_case by simp
      from write_loop_inverses [OF g na inv] show ?thesis
        by (simp add: w')
    qed
  qed
  show "slots_unique w' (conflict_frames w')"
    if b: "(\<forall>f \<in> set (conflict_frames w). mutual_inverses (heap w (dicts_at f))) \<and>
       slots_unique w (conflict_frames w)"
  proof -
    from b have inv: "\<forall>f \<in> set (conflict_frames w). mutual_inverses (heap w (dicts_at f))"
      and uniq: "slots_unique w (conflict_frames w)" by simp_all
    from request_cases [OF u r] show ?thesis
    proof
      assume "w' = w"
      with uniq show ?thesis by simp
    next
      assume m: "snd (snd (read_loop w (read_frames w t) rn rd)) = False \<and>
        gendim w (NameRequest rn t) (DimRequest rd t) = Inr (n', d') \<and>
        w' = write_loop w (write_frames w t) n' d'"
      then have g: "gendim w (NameRequest rn t) (DimRequest rd t) = Inr (n', d')"
        and w': "w' = write_loop w (write_frames w t) n' d'" by simp_all
      from m have na: "\<forall>f \<in> set (write_frames w t). n' \<notin> fst ` set (name_to_dim (heap w (dicts_at f)))"
        using miss_case by simp
      from write_loop_unique [OF g na inv uniq] show ?thesis
        by (simp add: w')
    qed
  qed
qed

theorem C7_inverses_maintained_witness:
  "mutual_inverses (StackFrame_write
      \<lparr>name_to_dim = [(''a'', - 1)], dim_to_name = [(- 1, ''a'')]\<rparr> ''b'' (- 2)) \<and>
   mutual_inverses (StackFrame_free
      \<lparr>name_to_dim = [(''a'', - 1)], dim_to_name = [(- 1, ''a'')]\<rparr> ''a'' (- 1)) \<and>
   request init_DimStack (Name (Some ''x'')) (DimReq (DimRequest None LOCAL))
     = Inr ((Some ''x'', Some (- 1)),
            write_loop init_DimStack (write_frames init_DimStack LOCAL) ''x'' (- 1)) \<and>
   mutual_inverses (heap (write_loop init_DimStack (write_frames init_DimStack LOCAL) ''x'' (- 1)) 0) \<and>
   slots_unique (write_loop init_DimStack (write_frames init_DimStack LOCAL) ''x'' (- 1))
     (conflict_frames (write_loop init_DimStack (write_frames init_DimStack LOCAL) ''x'' (- 1)))"
proof -
  define FR where "FR = \<lparr>name_to_dim = [(''a'', - 1)], dim_to_name = [(- 1, ''a'')]\<rparr>"
  define W' where "W' = write_loop init_DimStack (write_frames init_DimStack LOCAL) ''x'' (- 1)"
  have inv: "mutual_inverses FR"
    by (simp add: FR_def mutual_inverses_def)
  have absent: "''b'' \<notin> fst ` set (name_to_dim FR) \<and> - 2 \<notin> fst ` set (dim_to_name FR)"
    by (simp add: FR_def)
  have bound: "(''a'', - 1) \<in> set (name_to_dim FR)"
    by (simp add: FR_def)
  have u: "unpack (Name (Some ''x'')) (DimReq (DimRequest None LOCAL)) = Some (Some ''x'', None, LOCAL)"
    by simp
  have r: "request init_DimStack (Name (Some ''x'')) (DimReq (DimRequest None LOCAL))
      = Inr ((Some ''x'', Some (- 1)), W')"
    by (simp add: W'_def eval_defs gendim_loop.simps)
  have inv0: "mutual_inverses (heap init_DimStack a)" for a
    by (simp add: init_DimStack_def mutual_inverses_def empty_dicts_def)
  have uniq0: "slots_unique init_DimStack (conflict_frames init_DimStack)"
    by (simp add: slots_unique_def init_DimStack_def empty_dicts_def)
  from C7_inverses_maintained
    [of FR "''b''" "- 2" "Name (Some ''x'')" "DimReq (DimRequest None LOCAL)" "Some ''x''" None LOCAL
        init_DimStack "''x''" "- 1" W']
    inv absent u r inv0 uniq0
  have 1: "mutual_inverses (StackFrame_write FR ''b'' (- 2))"
    and 2: "mutual_inverses (heap W' 0)"
    and 3: "slots_unique W' (conflict_frames W')"
    by simp_all
  from C7_inverses_maintained
    [of FR "''a''" "- 1" "Name (Some ''x'')" "DimReq (DimRequest None LOCAL)" "Some ''x''" None LOCAL
        init_DimStack "''x''" "- 1" W']
    inv bound
  have 4: "mutual_inverses (StackFrame_free FR ''a'' (- 1))"
    by simp
  from 1 2 3 4 r show ?thesis
    unfolding FR_def W'_def by simp
qed

end
